theory Spec2Isabelle
  imports Complex_Main "HOL-Library.Word" "HOL-Library.AList"
begin

unbundle bit_operations_syntax

section \<open>JavaScript values\<close>

text \<open>
  Items are plain JavaScript objects whose fields hold primitive values or arrays; that is
  the shape of the normalized item records the source adapters return
  (\<open>title, href, thumbnail, type, chapter, rating, status, author, genre, ...\<close>).
  \<open>fval\<close> is a field value, \<open>obj\<close> an object as the list of its own properties in
  property order, and \<open>jsval\<close> an element of an item array: an object, or a non-object
  value (which the engine skips or probes for properties).

  Scope of the value model: numbers are integers (they print in decimal, as JavaScript
  prints safe integers); strings are sequences of code units below \<open>U+0100\<close>, one
  \<open>char\<close> each, so \<open>toLowerCase\<close>, \<open>trim\<close> and the regular expression
  \<open>/[^a-z0-9]/g\<close> are modelled on that range; a property read sees own properties, and
  on strings and arrays \<open>length\<close> and the indices (no prototype members); field values
  are not objects.  Two kinds of exception occur: a \<open>TypeError\<close> of the runtime (a method
  called on a value that has none) and an \<open>Error\<close> the code itself throws, with its message.
\<close>

datatype fval = FUndefined | FNull | FBool bool | FNum int | FStr string | FArr "fval list"

type_synonym obj = "(string \<times> fval) list"

datatype jsval = JPrim fval | JObj obj

datatype error = TypeError | Error string

fun truthy :: "fval \<Rightarrow> bool" where
  "truthy FUndefined = False"
| "truthy FNull = False"
| "truthy (FBool b) = b"
| "truthy (FNum n) = (n \<noteq> 0)"
| "truthy (FStr s) = (s \<noteq> [])"
| "truthy (FArr xs) = True"

fun truthyV :: "jsval \<Rightarrow> bool" where
  "truthyV (JPrim v) = truthy v"
| "truthyV (JObj ps) = True"

definition isObjectLike :: "jsval \<Rightarrow> bool" where
  "isObjectLike item = (case item of JObj ps \<Rightarrow> True | JPrim (FArr xs) \<Rightarrow> True | _ \<Rightarrow> False)"

text \<open>Number to string in a base (\<open>String(n)\<close>, \<open>n.toString(36)\<close>).\<close>

definition digitChar :: "nat \<Rightarrow> char" where
  "digitChar n = ''0123456789abcdefghijklmnopqrstuvwxyz'' ! n"

function showBase :: "nat \<Rightarrow> nat \<Rightarrow> string" where
  "showBase b n =
     (if n < b \<or> b < 2 then [digitChar n] else showBase b (n div b) @ [digitChar (n mod b)])"
  by pat_completeness auto
termination
  by (relation "measure snd") auto

declare showBase.simps [simp del]

lemma showBase_last: "n < b \<or> b < 2 \<Longrightarrow> showBase b n = [digitChar n]"
  by (simp add: showBase.simps)

lemma showBase_step:
  "\<not> (n < b \<or> b < 2) \<Longrightarrow> showBase b n = showBase b (n div b) @ [digitChar (n mod b)]"
  by (subst showBase.simps) simp

lemmas showBase_eval = showBase_last showBase_step digitChar_def

text \<open>\<open>Array.prototype.join\<close> and \<open>String.prototype.split\<close> with a one-character separator.\<close>

fun joinWith :: "string \<Rightarrow> string list \<Rightarrow> string" where
  "joinWith sep [] = []"
| "joinWith sep [x] = x"
| "joinWith sep (x # y # ys) = x @ sep @ joinWith sep (y # ys)"

fun splitOn :: "char \<Rightarrow> string \<Rightarrow> string list" where
  "splitOn d [] = [[]]"
| "splitOn d (c # cs) =
     (if c = d then [] # splitOn d cs
      else (case splitOn d cs of w # ws \<Rightarrow> (c # w) # ws | [] \<Rightarrow> [[c]]))"

text \<open>\<open>String(value)\<close>: an array prints its elements joined by commas, \<open>null\<close> and
  \<open>undefined\<close> elements as nothing.\<close>

fun toStr :: "fval \<Rightarrow> string" where
  "toStr FUndefined = ''undefined''"
| "toStr FNull = ''null''"
| "toStr (FBool b) = (if b then ''true'' else ''false'')"
| "toStr (FNum n) = (if n < 0 then CHR ''-'' # showBase 10 (nat (- n)) else showBase 10 (nat n))"
| "toStr (FStr s) = s"
| "toStr (FArr xs) =
     joinWith '','' (map (\<lambda>x. case x of FUndefined \<Rightarrow> [] | FNull \<Rightarrow> [] | _ \<Rightarrow> toStr x) xs)"

text \<open>\<open>toLowerCase\<close> on code units below \<open>U+0100\<close>: \<open>A-Z\<close> (65 to 90) and the Latin-1
  capitals \<open>U+00C0..U+00DE\<close> (192 to 222, without the multiplication sign 215) move down
  by 32; the two tables list the images.\<close>

definition lowerAscii :: string where
  "lowerAscii = ''abcdefghijklmnopqrstuvwxyz''"

definition lowerLatin1 :: string where
  "lowerLatin1 =
     [CHR 0xE0, CHR 0xE1, CHR 0xE2, CHR 0xE3, CHR 0xE4, CHR 0xE5, CHR 0xE6, CHR 0xE7,
      CHR 0xE8, CHR 0xE9, CHR 0xEA, CHR 0xEB, CHR 0xEC, CHR 0xED, CHR 0xEE, CHR 0xEF,
      CHR 0xF0, CHR 0xF1, CHR 0xF2, CHR 0xF3, CHR 0xF4, CHR 0xF5, CHR 0xF6, CHR 0xF7,
      CHR 0xF8, CHR 0xF9, CHR 0xFA, CHR 0xFB, CHR 0xFC, CHR 0xFD, CHR 0xFE]"

definition toLowerChar :: "char \<Rightarrow> char" where
  "toLowerChar c =
     (let n = (of_char c :: nat)
      in if 65 \<le> n \<and> n \<le> 90 then lowerAscii ! (n - 65)
         else if 192 \<le> n \<and> n \<le> 222 \<and> n \<noteq> 215 then lowerLatin1 ! (n - 192)
         else c)"

definition toLowerCase :: "string \<Rightarrow> string" where
  "toLowerCase s = map toLowerChar s"

text \<open>\<open>trim\<close> removes white space and line terminators at both ends; below \<open>U+0100\<close>
  these are TAB, LF, VT, FF, CR, SPACE and NBSP.\<close>

definition isWhite :: "char \<Rightarrow> bool" where
  "isWhite c = ((of_char c :: nat) \<in> {9, 10, 11, 12, 13, 32, 160})"

definition trim :: "string \<Rightarrow> string" where
  "trim s = rev (dropWhile isWhite (rev (dropWhile isWhite s)))"

definition isDigit :: "char \<Rightarrow> bool" where
  "isDigit c = (48 \<le> (of_char c :: nat) \<and> (of_char c :: nat) \<le> 57)"

definition isLowerAlnum :: "char \<Rightarrow> bool" where
  "isLowerAlnum c = (isDigit c \<or> (97 \<le> (of_char c :: nat) \<and> (of_char c :: nat) \<le> 122))"

text \<open>Property reads. \<open>parseIndex\<close> recognises a canonical array index
  (\<open>"0"\<close>, \<open>"17"\<close>, not \<open>"01"\<close>).\<close>

definition digitsValue :: "string \<Rightarrow> nat" where
  "digitsValue ds = foldl (\<lambda>n c. 10 * n + ((of_char c :: nat) - 48)) 0 ds"

definition parseIndex :: "string \<Rightarrow> nat option" where
  "parseIndex k =
     (if k \<noteq> [] \<and> list_all isDigit k \<and> (k = ''0'' \<or> hd k \<noteq> CHR ''0'')
      then Some (digitsValue k) else None)"

definition indexed :: "fval list \<Rightarrow> obj" where
  "indexed xs = zip (map (\<lambda>i. showBase 10 i) [0 ..< length xs]) xs"

fun getPropF :: "fval \<Rightarrow> string \<Rightarrow> fval" where
  "getPropF (FStr s) k =
     (if k = ''length'' then FNum (int (length s))
      else (case parseIndex k of
              Some i \<Rightarrow> if i < length s then FStr [s ! i] else FUndefined
            | None \<Rightarrow> FUndefined))"
| "getPropF (FArr xs) k =
     (if k = ''length'' then FNum (int (length xs))
      else (case parseIndex k of
              Some i \<Rightarrow> if i < length xs then xs ! i else FUndefined
            | None \<Rightarrow> FUndefined))"
| "getPropF v k = FUndefined"

fun getProp :: "jsval \<Rightarrow> string \<Rightarrow> fval" where
  "getProp (JObj ps) k = (case map_of ps k of Some v \<Rightarrow> v | None \<Rightarrow> FUndefined)"
| "getProp (JPrim v) k = getPropF v k"

text \<open>The own enumerable properties copied by \<open>{...item}\<close>.\<close>

fun spread :: "jsval \<Rightarrow> obj" where
  "spread (JObj ps) = ps"
| "spread (JPrim (FArr xs)) = indexed xs"
| "spread (JPrim (FStr s)) = indexed (map (\<lambda>c. FStr [c]) s)"
| "spread (JPrim v) = []"

section \<open>Integrity engine\<close>

text \<open>
  The service picks its fingerprint function from the environment: with \<open>VERCEL\<close> set it is
  \<open>djb2Hash\<close>, otherwise the hex MD5 digest of Node's \<open>crypto\<close> module, which is not part
  of the repository and is a parameter here (\<open>md5\<close>).
\<close>

record env =
  isVercel :: bool
  md5 :: "string \<Rightarrow> string"

text \<open>
  \<open>djb2Hash\<close>: \<open>hash = ((hash << 5) + hash) + charCode; hash = hash & hash\<close>. The shift and
  the \<open>&\<close> truncate to 32 bits, the additions in between are exact, so each round is
  arithmetic modulo \<open>2^32\<close> and the result is read as a signed integer.
\<close>

fun djb2Loop :: "32 word \<Rightarrow> string \<Rightarrow> 32 word" where
  "djb2Loop hash [] = hash"
| "djb2Loop hash (c # cs) = djb2Loop ((push_bit 5 hash + hash) + of_char c) cs"

definition djb2Hash :: "string \<Rightarrow> string" where
  "djb2Hash str = showBase 36 (nat \<bar>sint (djb2Loop 5381 str)\<bar>)"

definition getNestedValue :: "jsval \<Rightarrow> string \<Rightarrow> fval" where
  "getNestedValue obj path =
     (if \<not> truthyV obj \<or> path = [] then FUndefined
      else (case splitOn CHR ''.'' path of
              [] \<Rightarrow> FUndefined
            | prop # props \<Rightarrow> foldl getPropF (getProp obj prop) props))"

definition hashContent :: "jsval \<Rightarrow> string list \<Rightarrow> string" where
  "hashContent data fieldNames =
     joinWith ''|''
       (filter (\<lambda>s. s \<noteq> [])
          (map (\<lambda>field. let value = getNestedValue data field
                        in if truthy value then trim (toLowerCase (toStr value)) else [])
               fieldNames))"

definition generateHash :: "env \<Rightarrow> jsval \<Rightarrow> string list \<Rightarrow> string" where
  "generateHash env data fieldNames =
     (if \<not> truthyV data then []
      else if isVercel env then djb2Hash (hashContent data fieldNames)
      else md5 env (hashContent data fieldNames))"

definition generateUniqueId :: "env \<Rightarrow> jsval \<Rightarrow> error + string" where
  "generateUniqueId env item =
     (if \<not> truthyV item then Inr []
      else if truthy (getProp item ''href'') then
        (case getProp item ''href'' of
           FStr href \<Rightarrow>
             (let urlParts = filter (\<lambda>s. s \<noteq> []) (splitOn CHR ''/'' href)
              in Inr (''comic_'' @
                   (if urlParts = [] then generateHash env item [''title'', ''href'']
                    else last urlParts)))
         | _ \<Rightarrow> Inl TypeError)
      else Inr (''comic_'' @ generateHash env item [''title'', ''href'']))"

text \<open>\<open>title.toLowerCase().replace(/[^a-z0-9]/g, '')\<close>.\<close>

definition normalizeTitle :: "string \<Rightarrow> string" where
  "normalizeTitle t = filter isLowerAlnum (toLowerCase t)"

definition generateFuzzyKey :: "jsval \<Rightarrow> error + string" where
  "generateFuzzyKey item =
     (if \<not> truthyV item \<or> \<not> truthy (getProp item ''title'') then Inr []
      else (case getProp item ''title'' of
              FStr t \<Rightarrow> Inr (take 20 (normalizeTitle t))
            | _ \<Rightarrow> Inl TypeError))"

fun isPrefixOf :: "string \<Rightarrow> string \<Rightarrow> bool" where
  "isPrefixOf [] ys = True"
| "isPrefixOf (x # xs) [] = False"
| "isPrefixOf (x # xs) (y # ys) = (x = y \<and> isPrefixOf xs ys)"

fun includesStr :: "string \<Rightarrow> string \<Rightarrow> bool" where
  "includesStr [] sub = (sub = [])"
| "includesStr (c # cs) sub = (isPrefixOf sub (c # cs) \<or> includesStr cs sub)"

text \<open>
  The similarity is a quotient of two string lengths, computed in floating point and
  compared with the literal \<open>0.85\<close>. Division is correctly rounded, so \<open>17/20\<close> gives the
  very double the literal denotes, and a quotient \<open>a/b\<close> other than \<open>17/20\<close> differs from it
  by at least \<open>1/(20 b)\<close>, far more than the rounding error for any string a JavaScript
  engine can hold. The comparison therefore agrees with the one on exact quotients, which
  is what the model computes.
\<close>

definition calculateSimilarity :: "string \<Rightarrow> string \<Rightarrow> real" where
  "calculateSimilarity str1 str2 =
     (if str1 = str2 then 1
      else if str1 = [] \<or> str2 = [] then 0
      else let longer = (if length str1 > length str2 then str1 else str2);
               shorter = (if length str1 > length str2 then str2 else str1)
           in if length longer = 0 then 1
              else if includesStr longer shorter then real (length shorter) / real (length longer)
              else real (length (filter (\<lambda>(char, l). l = char) (zip shorter longer)))
                     / real (length longer))"

definition titleOrEmpty :: "jsval \<Rightarrow> error + string" where
  "titleOrEmpty item =
     (case (let t = getProp item ''title'' in if truthy t then t else FStr []) of
        FStr s \<Rightarrow> Inr (normalizeTitle s)
      | _ \<Rightarrow> Inl TypeError)"

definition isFuzzyMatch :: "jsval \<Rightarrow> jsval \<Rightarrow> error + bool" where
  "isFuzzyMatch item1 item2 =
     (if \<not> truthyV item1 \<or> \<not> truthyV item2 then Inr False
      else (case titleOrEmpty item1 of
              Inl e \<Rightarrow> Inl e
            | Inr title1 \<Rightarrow>
               (case titleOrEmpty item2 of
                  Inl e \<Rightarrow> Inl e
                | Inr title2 \<Rightarrow>
                    if title1 = [] \<or> title2 = [] then Inr False
                    else if title1 = title2 then Inr True
                    else Inr (calculateSimilarity title1 title2 > 0.85))))"



subsection \<open>Quality score\<close>

fun lengthGt :: "fval \<Rightarrow> int \<Rightarrow> bool" where
  "lengthGt (FStr s) k = (int (length s) > k)"
| "lengthGt (FArr xs) k = (int (length xs) > k)"
| "lengthGt v k = False"

text \<open>
  \<open>parseFloat(x) > 0\<close> on the string form of \<open>x\<close>: leading white space, a sign, then
  \<open>Infinity\<close> or the longest decimal literal. The value \<open>m * 10^p\<close> is positive as a double
  unless it rounds to zero, that is unless it is at most \<open>2^-1075\<close>.
\<close>

fun exponentOf :: "string \<Rightarrow> int" where
  "exponentOf [] = 0"
| "exponentOf (c # r) =
     (if c = CHR ''e'' \<or> c = CHR ''E'' then
        (case r of
           [] \<Rightarrow> 0
         | s # ds \<Rightarrow>
             if s = CHR ''-'' then (if takeWhile isDigit ds = [] then 0
                                    else - int (digitsValue (takeWhile isDigit ds)))
             else if s = CHR ''+'' then int (digitsValue (takeWhile isDigit ds))
             else int (digitsValue (takeWhile isDigit (s # ds))))
      else 0)"

definition parseFloatPositive :: "string \<Rightarrow> bool" where
  "parseFloatPositive str =
     (let t = dropWhile isWhite str;
          neg = (t \<noteq> [] \<and> hd t = CHR ''-'');
          u = (if t \<noteq> [] \<and> (hd t = CHR ''-'' \<or> hd t = CHR ''+'') then tl t else t)
      in if isPrefixOf ''Infinity'' u then \<not> neg
         else let ip = takeWhile isDigit u;
                  r1 = dropWhile isDigit u;
                  fp = (if r1 \<noteq> [] \<and> hd r1 = CHR ''.'' then takeWhile isDigit (tl r1) else []);
                  r2 = (if r1 \<noteq> [] \<and> hd r1 = CHR ''.'' then dropWhile isDigit (tl r1) else r1);
                  m = digitsValue (ip @ fp);
                  p = exponentOf r2 - int (length fp)
              in ip @ fp \<noteq> [] \<and> \<not> neg \<and> m > 0 \<and>
                 (p \<ge> 0 \<or> int m * 2 ^ 1075 > 10 ^ nat (- p)))"

definition getQualityScore :: "jsval \<Rightarrow> int" where
  "getQualityScore item =
     (if \<not> truthyV item then 0
      else
        (if truthy (getProp item ''title'') \<and> lengthGt (getProp item ''title'') 0 then 10 else 0)
      + (if truthy (getProp item ''thumbnail'') \<and> lengthGt (getProp item ''thumbnail'') 10
         then 15 else 0)
      + (if truthy (getProp item ''description'') \<and> lengthGt (getProp item ''description'') 50
         then 15 else 0)
      + (if truthy (getProp item ''rating'') \<and> parseFloatPositive (toStr (getProp item ''rating''))
         then 10 else 0)
      + (if truthy (getProp item ''chapter'') \<and> lengthGt (getProp item ''chapter'') 0 then 10 else 0)
      + (if truthy (getProp item ''genre'')
         then min ((case getProp item ''genre'' of
                      FArr xs \<Rightarrow> int (length xs)
                    | FStr g \<Rightarrow> int (length (splitOn CHR '','' g))
                    | _ \<Rightarrow> 0) * 3) 15
         else 0)
      + (if truthy (getProp item ''author'') \<and> lengthGt (getProp item ''author'') 0 then 10 else 0)
      + (if truthy (getProp item ''status'') \<and> lengthGt (getProp item ''status'') 0 then 5 else 0)
      + (if truthy (getProp item ''type'') \<and> lengthGt (getProp item ''type'') 0 then 5 else 0)
      + (if truthy (getProp item ''href'') \<and> lengthGt (getProp item ''href'') 0 then 5 else 0))"

subsection \<open>Merging two items\<close>

text \<open>
  \<open>JSON.stringify\<close> of a field value (\<open>None\<close> is the value \<open>undefined\<close> it returns for
  \<open>undefined\<close>); \<open>mergeItems\<close> uses it to compare array entries.
\<close>

definition jsonEscape :: "char \<Rightarrow> string" where
  "jsonEscape c =
     (let n = (of_char c :: nat)
      in if n = 34 then [CHR 0x5C, CHR 0x22]
         else if n = 92 then [CHR 0x5C, CHR 0x5C]
         else if n = 8 then [CHR 0x5C, CHR ''b'']
         else if n = 12 then [CHR 0x5C, CHR ''f'']
         else if n = 10 then [CHR 0x5C, CHR ''n'']
         else if n = 13 then [CHR 0x5C, CHR ''r'']
         else if n = 9 then [CHR 0x5C, CHR ''t'']
         else if n < 32 then [CHR 0x5C, CHR ''u'', CHR ''0'', CHR ''0'',
                              digitChar (n div 16), digitChar (n mod 16)]
         else [c])"

definition jsonQuote :: "string \<Rightarrow> string" where
  "jsonQuote s = [CHR 0x22] @ concat (map jsonEscape s) @ [CHR 0x22]"

fun jsonStringify :: "fval \<Rightarrow> string option" where
  "jsonStringify FUndefined = None"
| "jsonStringify FNull = Some ''null''"
| "jsonStringify (FBool b) = Some (if b then ''true'' else ''false'')"
| "jsonStringify (FNum n) = Some (toStr (FNum n))"
| "jsonStringify (FStr s) = Some (jsonQuote s)"
| "jsonStringify (FArr xs) =
     Some (''['' @ joinWith '',''
             (map (\<lambda>x. case jsonStringify x of None \<Rightarrow> ''null'' | Some t \<Rightarrow> t) xs) @ '']'')"

definition mergeArrays :: "fval list \<Rightarrow> fval list \<Rightarrow> fval list" where
  "mergeArrays primaryVal secondaryVal =
     foldl (\<lambda>combined item.
              if list_ex (\<lambda>existing. jsonStringify existing = jsonStringify item) combined
              then combined else combined @ [item])
           primaryVal secondaryVal"

definition mergeField :: "jsval \<Rightarrow> jsval \<Rightarrow> obj \<Rightarrow> string \<Rightarrow> obj" where
  "mergeField primary secondary merged field =
     (let primaryVal = getProp primary field;
          secondaryVal = getProp secondary field
      in if \<not> truthy primaryVal \<and> truthy secondaryVal
         then AList.update field secondaryVal merged
         else (case (primaryVal, secondaryVal) of
                 (FArr ps, FArr ss) \<Rightarrow> AList.update field (FArr (mergeArrays ps ss)) merged
               | (FStr p, FStr s) \<Rightarrow>
                   if length s > length p then AList.update field (FStr s) merged else merged
               | _ \<Rightarrow> merged))"

text \<open>
  \<open>.filter((v, i, a) => a.indexOf(v) === i)\<close> keeps first occurrences under \<open>===\<close>.
  Arrays are compared by identity; the entries of one list are taken to be distinct array
  objects, so an array entry is never dropped.
\<close>

fun strictEq :: "fval \<Rightarrow> fval \<Rightarrow> bool" where
  "strictEq (FArr xs) w = False"
| "strictEq v w = (v = w)"

definition firstOccurrences :: "fval list \<Rightarrow> fval list" where
  "firstOccurrences a =
     map snd (filter (\<lambda>(i, v). \<not> list_ex (\<lambda>w. strictEq w v) (take i a)) (enumerate 0 a))"

definition orUnknown :: "fval \<Rightarrow> fval" where
  "orUnknown v = (if truthy v then v else FStr ''unknown'')"

definition primarySources :: "jsval \<Rightarrow> error + fval list" where
  "primarySources primary =
     (if truthy (getProp primary ''_sources'') then
        (case getProp primary ''_sources'' of
           FArr xs \<Rightarrow> Inr xs
         | FStr s \<Rightarrow> Inr (map (\<lambda>c. FStr [c]) s)
         | _ \<Rightarrow> Inl TypeError)
      else Inr [orUnknown (getProp primary ''_source'')])"

definition mergeItems :: "jsval \<Rightarrow> jsval \<Rightarrow> string list \<Rightarrow> error + jsval" where
  "mergeItems primary secondary fieldNames =
     (if \<not> truthyV primary then Inr secondary
      else if \<not> truthyV secondary then Inr primary
      else let merged = foldl (mergeField primary secondary) (spread primary) fieldNames
           in (case primarySources primary of
                 Inl e \<Rightarrow> Inl e
               | Inr srcs \<Rightarrow>
                   Inr (JObj (AList.update ''_sources''
                          (FArr (firstOccurrences
                                   (srcs @ [orUnknown (getProp secondary ''_source'')])))
                          merged))))"

subsection \<open>Deduplication\<close>

text \<open>
  \<open>uniqueMap\<close> is a JavaScript \<open>Map\<close>: a list of entries in insertion order, read with
  \<open>map_of\<close> and written with \<open>AList.update\<close> (in place for a key that is present, at the
  end for a new one). \<open>clock i\<close> is the reading of \<open>Date.now()\<close> when the item at index
  \<open>i\<close> is enriched. The engine's counters \<open>stats.duplicatesDetected\<close> and
  \<open>stats.hashCollisions\<close> are only ever incremented and reported; they are left out, as
  is the formatted \<open>duplicateRate\<close>. The argument is \<open>None\<close> when it is not an array.
\<close>

record options =
  optFields :: "string list"
  optStrategy :: string
  optContext :: string
  optMergeFields :: "string list"

definition defaultOptions :: options where
  "defaultOptions = \<lparr> optFields = [''title'', ''href''], optStrategy = ''newest'',
     optContext = ''default'',
     optMergeFields = [''genre'', ''chapter'', ''rating'', ''description''] \<rparr>"

record entry =
  entryItem :: jsval
  entryIndex :: nat

record duplicate =
  dupItem :: jsval
  matchedWith :: jsval
  dupHash :: string

record dedupState =
  uniqueMap :: "(string \<times> entry) list"
  duplicates :: "duplicate list"
  processOrder :: "string list"

record dedupResult =
  items :: "jsval list"
  duplicatesOut :: "duplicate list"
  statsTotal :: nat
  statsUnique :: nat
  statsDuplicates :: nat

fun findFuzzy :: "jsval \<Rightarrow> (string \<times> entry) list \<Rightarrow> error + (string \<times> entry) option" where
  "findFuzzy item [] = Inr None"
| "findFuzzy item ((key, e) # es) =
     (case isFuzzyMatch item (entryItem e) of
        Inl err \<Rightarrow> Inl err
      | Inr True \<Rightarrow> Inr (Some (key, e))
      | Inr False \<Rightarrow> findFuzzy item es)"

definition findExisting ::
  "dedupState \<Rightarrow> jsval \<Rightarrow> string \<Rightarrow> string \<Rightarrow> error + (string \<times> entry) option" where
  "findExisting st item hash fuzzyKey =
     (case map_of (uniqueMap st) hash of
        Some e \<Rightarrow> Inr (Some (hash, e))
      | None \<Rightarrow> if fuzzyKey \<noteq> [] then findFuzzy item (uniqueMap st) else Inr None)"

definition setEntryItem :: "string \<Rightarrow> entry \<Rightarrow> jsval \<Rightarrow> dedupState \<Rightarrow> dedupState" where
  "setEntryItem key e newItem st =
     st\<lparr> uniqueMap := AList.update key (e\<lparr> entryItem := newItem \<rparr>) (uniqueMap st) \<rparr>"

definition enrich :: "jsval \<Rightarrow> string \<Rightarrow> string \<Rightarrow> int \<Rightarrow> jsval" where
  "enrich item uid hash now =
     JObj (AList.update ''_processedAt'' (FNum now)
            (AList.update ''_hash'' (FStr hash)
              (AList.update ''_id'' (FStr uid) (spread item))))"

definition dedupStep ::
  "env \<Rightarrow> options \<Rightarrow> (nat \<Rightarrow> int) \<Rightarrow> dedupState \<Rightarrow> nat \<times> jsval \<Rightarrow> error + dedupState" where
  "dedupStep env opts clock st x =
     (case x of (index, item) \<Rightarrow>
      if \<not> isObjectLike item then Inr st
      else
        let hash = generateHash env item (optFields opts) in
        (case generateFuzzyKey item of
           Inl err \<Rightarrow> Inl err
         | Inr fuzzyKey \<Rightarrow>
            (case findExisting st item hash fuzzyKey of
               Inl err \<Rightarrow> Inl err
             | Inr (Some (key, existingEntry)) \<Rightarrow>
                 let st' = st\<lparr> duplicates := duplicates st @
                              [\<lparr> dupItem = item, matchedWith = entryItem existingEntry,
                                 dupHash = hash \<rparr>] \<rparr>
                 in if optStrategy opts = ''merge'' then
                      (case mergeItems (entryItem existingEntry) item (optMergeFields opts) of
                         Inl err \<Rightarrow> Inl err
                       | Inr m \<Rightarrow> Inr (setEntryItem key existingEntry m st'))
                    else if optStrategy opts = ''best_quality'' then
                      (if getQualityScore item > getQualityScore (entryItem existingEntry) then
                         (case mergeItems item (entryItem existingEntry) (optMergeFields opts) of
                            Inl err \<Rightarrow> Inl err
                          | Inr m \<Rightarrow> Inr (setEntryItem key existingEntry m st'))
                       else Inr st')
                    else if optStrategy opts = ''newest'' then
                      (if index > entryIndex existingEntry then
                         (case mergeItems item (entryItem existingEntry) (optMergeFields opts) of
                            Inl err \<Rightarrow> Inl err
                          | Inr m \<Rightarrow> Inr (setEntryItem key existingEntry m st'))
                       else Inr st')
                    else Inr st'
             | Inr None \<Rightarrow>
                 (case generateUniqueId env item of
                    Inl err \<Rightarrow> Inl err
                  | Inr uid \<Rightarrow>
                      Inr (st\<lparr> uniqueMap := AList.update hash
                                 \<lparr> entryItem = enrich item uid hash (clock index),
                                   entryIndex = index \<rparr> (uniqueMap st),
                               processOrder := processOrder st @ [hash] \<rparr>)))))"

fun dedupLoop ::
  "env \<Rightarrow> options \<Rightarrow> (nat \<Rightarrow> int) \<Rightarrow> dedupState \<Rightarrow> (nat \<times> jsval) list \<Rightarrow> error + dedupState"
where
  "dedupLoop env opts clock st [] = Inr st"
| "dedupLoop env opts clock st (x # xs) =
     (case dedupStep env opts clock st x of
        Inl err \<Rightarrow> Inl err
      | Inr st' \<Rightarrow> dedupLoop env opts clock st' xs)"

fun collectItems :: "(string \<times> entry) list \<Rightarrow> string list \<Rightarrow> error + jsval list" where
  "collectItems um [] = Inr []"
| "collectItems um (hash # hs) =
     (case map_of um hash of
        None \<Rightarrow> Inl TypeError
      | Some e \<Rightarrow> (case collectItems um hs of
                     Inl err \<Rightarrow> Inl err
                   | Inr its \<Rightarrow> Inr (entryItem e # its)))"

definition initialState :: dedupState where
  "initialState = \<lparr> uniqueMap = [], duplicates = [], processOrder = [] \<rparr>"

definition deduplicate ::
  "env \<Rightarrow> (nat \<Rightarrow> int) \<Rightarrow> jsval list option \<Rightarrow> options \<Rightarrow> error + dedupResult" where
  "deduplicate env clock itemsArg opts =
     (case itemsArg of
        None \<Rightarrow> Inr \<lparr> items = [], duplicatesOut = [], statsTotal = 0, statsUnique = 0,
                       statsDuplicates = 0 \<rparr>
      | Some its \<Rightarrow>
          (case dedupLoop env opts clock initialState (enumerate 0 its) of
             Inl err \<Rightarrow> Inl err
           | Inr st \<Rightarrow>
               (case collectItems (uniqueMap st) (processOrder st) of
                  Inl err \<Rightarrow> Inl err
                | Inr uniqueItems \<Rightarrow>
                    Inr \<lparr> items = uniqueItems, duplicatesOut = duplicates st,
                          statsTotal = length its, statsUnique = length uniqueItems,
                          statsDuplicates = length (duplicates st) \<rparr>)))"

subsection \<open>New-item detection\<close>

text \<open>\<open>dedupeIndex\<close> is a \<open>Map\<close> from \<open>"dedupe_" + context\<close> to a \<open>Set\<close> of hashes.\<close>

record detection =
  newItems :: "jsval list"
  existingItems :: "jsval list"
  allNew :: bool

record detectState =
  currentHashes :: "string set"
  newAcc :: "jsval list"
  existingAcc :: "jsval list"

fun detectLoop :: "env \<Rightarrow> string set \<Rightarrow> detectState \<Rightarrow> jsval list \<Rightarrow> detectState" where
  "detectLoop env previousHashes st [] = st"
| "detectLoop env previousHashes st (item # rest) =
     (let hash = generateHash env item [''title'', ''href''];
          st1 = st\<lparr> currentHashes := insert hash (currentHashes st) \<rparr>
      in detectLoop env previousHashes
           (if hash \<in> previousHashes
            then st1\<lparr> existingAcc := existingAcc st1 @ [item] \<rparr>
            else st1\<lparr> newAcc := newAcc st1 @
                         [JObj (AList.update ''_isNew'' (FBool True) (spread item))] \<rparr>)
           rest)"

definition detectNewItems ::
  "env \<Rightarrow> (string \<rightharpoonup> string set) \<Rightarrow> jsval list option \<Rightarrow> string
     \<Rightarrow> detection \<times> (string \<rightharpoonup> string set)" where
  "detectNewItems env dedupeIndex currentData context =
     (case currentData of
        None \<Rightarrow> (\<lparr> newItems = [], existingItems = [], allNew = False \<rparr>, dedupeIndex)
      | Some its \<Rightarrow>
          let dedupeKey = ''dedupe_'' @ context;
              previousHashes = (case dedupeIndex dedupeKey of Some s \<Rightarrow> s | None \<Rightarrow> {});
              st = detectLoop env previousHashes
                     \<lparr> currentHashes = {}, newAcc = [], existingAcc = [] \<rparr> its
          in (\<lparr> newItems = newAcc st, existingItems = existingAcc st,
                allNew = (length (existingAcc st) = 0 \<and> length (newAcc st) > 0) \<rparr>,
              dedupeIndex(dedupeKey \<mapsto> currentHashes st)))"

section \<open>Evaluation on concrete inputs\<close>

text \<open>
  Examples run in the serverless profile, where the fingerprint is \<open>djb2Hash\<close> and MD5 is
  never called (its stand-in is never applied), with a clock that reads 1000.
\<close>

definition vercelEnv :: env where
  "vercelEnv = \<lparr> isVercel = True, md5 = (\<lambda>s. []) \<rparr>"

definition clock0 :: "nat \<Rightarrow> int" where
  "clock0 i = 1000"

lemmas str_eval = toLowerCase_def toLowerChar_def lowerAscii_def lowerLatin1_def trim_def
  isWhite_def isDigit_def isLowerAlnum_def normalizeTitle_def

lemmas hash_eval = generateHash_def hashContent_def getNestedValue_def djb2Hash_def showBase_eval

lemmas dedup_eval = deduplicate_def dedupStep_def findExisting_def generateFuzzyKey_def
  generateUniqueId_def isFuzzyMatch_def titleOrEmpty_def calculateSimilarity_def enrich_def
  isObjectLike_def setEntryItem_def mergeItems_def mergeField_def primarySources_def
  orUnknown_def firstOccurrences_def initialState_def defaultOptions_def Let_def

section \<open>Facts about the deduplication loop\<close>

lemma update_absent: "map_of um k = None \<Longrightarrow> AList.update k v um = um @ [(k, v)]"
  by (induction um) auto

lemma update_keys_present:
  "k \<in> fst ` set um \<Longrightarrow> map fst (AList.update k v um) = map fst um"
  by (induction um) auto

lemma findFuzzy_Some: "findFuzzy x um = Inr (Some (k, e)) \<Longrightarrow> (k, e) \<in> set um"
  by (induction um) (auto split: sum.splits bool.splits if_splits)

lemma findExisting_Some:
  "findExisting st x h fk = Inr (Some (k, e)) \<Longrightarrow> (k, e) \<in> set (uniqueMap st)"
  by (auto simp: findExisting_def split: option.splits if_splits dest: map_of_SomeD findFuzzy_Some)

lemma findExisting_None:
  "findExisting st x h fk = Inr None \<Longrightarrow> map_of (uniqueMap st) h = None"
  by (auto simp: findExisting_def split: option.splits if_splits)

text \<open>What one iteration of the loop can do.\<close>

lemma dedupStep_cases:
  assumes "dedupStep env opts clock st (i, x) = Inr st'"
  obtains (skip) "\<not> isObjectLike x" "st' = st"
  | (dup) k e fk where "isObjectLike x" "generateFuzzyKey x = Inr fk"
      "findExisting st x (generateHash env x (optFields opts)) fk = Inr (Some (k, e))"
      "duplicates st' = duplicates st @
         [\<lparr> dupItem = x, matchedWith = entryItem e,
            dupHash = generateHash env x (optFields opts) \<rparr>]"
      "processOrder st' = processOrder st"
      "uniqueMap st' = uniqueMap st \<or>
       (\<exists>m. uniqueMap st' = AList.update k (e\<lparr> entryItem := m \<rparr>) (uniqueMap st))"
      "optStrategy opts \<notin> {''merge'', ''best_quality'', ''newest''} \<longrightarrow> uniqueMap st' = uniqueMap st"
  | (new) fk uid where "isObjectLike x" "generateFuzzyKey x = Inr fk"
      "findExisting st x (generateHash env x (optFields opts)) fk = Inr None"
      "generateUniqueId env x = Inr uid"
      "st' = st\<lparr> uniqueMap := uniqueMap st @
                [(generateHash env x (optFields opts),
                  \<lparr> entryItem = enrich x uid (generateHash env x (optFields opts)) (clock i),
                    entryIndex = i \<rparr>)],
              processOrder := processOrder st @ [generateHash env x (optFields opts)] \<rparr>"
proof (cases "isObjectLike x")
  case False
  with assms have "st' = st" by (simp add: dedupStep_def)
  with False show ?thesis by (rule skip)
next
  case obj: True
  from assms obj obtain fk where fk: "generateFuzzyKey x = Inr fk"
    by (cases "generateFuzzyKey x") (auto simp: dedupStep_def Let_def)
  let ?h = "generateHash env x (optFields opts)"
  from assms obj fk obtain r where r: "findExisting st x ?h fk = Inr r"
    by (cases "findExisting st x ?h fk") (auto simp: dedupStep_def Let_def)
  show ?thesis
  proof (cases r)
    case None
    with assms obj fk r obtain uid where uid: "generateUniqueId env x = Inr uid"
      by (cases "generateUniqueId env x") (auto simp: dedupStep_def Let_def)
    from r None have "map_of (uniqueMap st) ?h = None" by (simp add: findExisting_None)
    then have "AList.update ?h v (uniqueMap st) = uniqueMap st @ [(?h, v)]" for v
      by (rule update_absent)
    with assms obj fk r None uid
    have "st' = st\<lparr> uniqueMap := uniqueMap st @
                [(?h, \<lparr> entryItem = enrich x uid ?h (clock i), entryIndex = i \<rparr>)],
              processOrder := processOrder st @ [?h] \<rparr>"
      by (simp add: dedupStep_def Let_def)
    with obj fk r None uid show ?thesis by (intro new) simp_all
  next
    case (Some ke)
    obtain k e where ke: "ke = (k, e)" by (cases ke)
    from assms obj fk r Some ke
    have d: "duplicates st' = duplicates st @
         [\<lparr> dupItem = x, matchedWith = entryItem e, dupHash = ?h \<rparr>]"
      and p: "processOrder st' = processOrder st"
      and u: "uniqueMap st' = uniqueMap st \<or>
       (\<exists>m. uniqueMap st' = AList.update k (e\<lparr> entryItem := m \<rparr>) (uniqueMap st))"
      and o: "optStrategy opts \<notin> {''merge'', ''best_quality'', ''newest''} \<longrightarrow> uniqueMap st' = uniqueMap st"
      by (auto simp: dedupStep_def Let_def setEntryItem_def split: if_splits sum.splits)
    with obj fk r Some ke show ?thesis by (intro dup) simp_all
  qed
qed


definition keysOk :: "dedupState \<Rightarrow> bool" where
  "keysOk st = (processOrder st = map fst (uniqueMap st) \<and> distinct (map fst (uniqueMap st)))"

lemma dedupStep_keysOk:
  assumes "dedupStep env opts clock st (i, x) = Inr st'" "keysOk st"
  shows "keysOk st'"
  using assms(1)
proof (cases rule: dedupStep_cases)
  case skip
  with assms show ?thesis by simp
next
  case (dup k e fk)
  from dup(3) have "k \<in> fst ` set (uniqueMap st)"
    by (auto dest!: findExisting_Some intro: rev_image_eqI)
  then have "map fst (AList.update k v (uniqueMap st)) = map fst (uniqueMap st)" for v
    by (rule update_keys_present)
  with dup(5,6) assms(2) show ?thesis by (auto simp: keysOk_def)
next
  case (new fk uid)
  from new(3) have "map_of (uniqueMap st) (generateHash env x (optFields opts)) = None"
    by (rule findExisting_None)
  then have "generateHash env x (optFields opts) \<notin> fst ` set (uniqueMap st)"
    by (simp add: map_of_eq_None_iff)
  with new(5) assms(2) show ?thesis by (auto simp: keysOk_def)
qed

lemma dedupLoop_prefix_invariant:
  assumes "dedupLoop env opts clock st xs = Inr st'"
    and "Q pre st"
    and "\<And>pre s i x s'. Q pre s \<Longrightarrow> dedupStep env opts clock s (i, x) = Inr s' \<Longrightarrow> Q (pre @ [(i, x)]) s'"
  shows "Q (pre @ xs) st'"
  using assms(1,2)
proof (induction xs arbitrary: st pre)
  case Nil
  then show ?case by simp
next
  case (Cons ix xs)
  obtain i x where ix: "ix = (i, x)" by (cases ix)
  from Cons.prems(1) obtain s1 where s1: "dedupStep env opts clock st (i, x) = Inr s1"
    and rest: "dedupLoop env opts clock s1 xs = Inr st'"
    by (auto simp: ix split: sum.splits)
  from assms(3)[OF Cons.prems(2) s1] have "Q (pre @ [(i, x)]) s1" .
  from Cons.IH[OF rest this] show ?case by (simp add: ix)
qed

lemma collectItems_keys:
  "distinct (map fst um) \<Longrightarrow> set ks \<subseteq> fst ` set um \<Longrightarrow>
   collectItems um ks = Inr (map (\<lambda>k. entryItem (the (map_of um k))) ks)"
  by (induction ks) (auto split: option.splits sum.splits simp: map_of_eq_None_iff)

lemma collectItems_all:
  assumes "distinct (map fst um)"
  shows "collectItems um (map fst um) = Inr (map (\<lambda>ke. entryItem (snd ke)) um)"
proof -
  have "collectItems um (map fst um) = Inr (map (\<lambda>k. entryItem (the (map_of um k))) (map fst um))"
    using assms by (intro collectItems_keys) auto
  moreover have "map (\<lambda>k. entryItem (the (map_of um k))) (map fst um) = map (\<lambda>ke. entryItem (snd ke)) um"
    using assms by (auto simp: comp_def)
  ultimately show ?thesis by simp
qed

lemma initialState_keysOk: "keysOk initialState"
  by (simp add: keysOk_def initialState_def)

lemma dedupLoop_keysOk:
  assumes "dedupLoop env opts clock st xs = Inr st'" "keysOk st"
  shows "keysOk st'"
  using dedupLoop_prefix_invariant[where Q = "\<lambda>pre s. keysOk s" and pre = "[]", OF assms]
  by (auto intro: dedupStep_keysOk)

text \<open>The result of a run in terms of the final loop state.\<close>

lemma deduplicate_result:
  assumes "deduplicate env clock (Some its) opts = Inr r"
  obtains st where "dedupLoop env opts clock initialState (enumerate 0 its) = Inr st"
    "keysOk st"
    "r = \<lparr> items = map (\<lambda>ke. entryItem (snd ke)) (uniqueMap st), duplicatesOut = duplicates st,
           statsTotal = length its, statsUnique = length (uniqueMap st),
           statsDuplicates = length (duplicates st) \<rparr>"
proof -
  from assms obtain st where st: "dedupLoop env opts clock initialState (enumerate 0 its) = Inr st"
    by (auto simp: deduplicate_def split: sum.splits)
  have k: "keysOk st" using dedupLoop_keysOk[OF st initialState_keysOk] .
  then have "collectItems (uniqueMap st) (processOrder st) =
      Inr (map (\<lambda>ke. entryItem (snd ke)) (uniqueMap st))"
    by (simp add: keysOk_def collectItems_all)
  with assms st have "r = \<lparr> items = map (\<lambda>ke. entryItem (snd ke)) (uniqueMap st),
           duplicatesOut = duplicates st,
           statsTotal = length its, statsUnique = length (uniqueMap st),
           statsDuplicates = length (duplicates st) \<rparr>"
    by (simp add: deduplicate_def)
  with st k show ?thesis by (rule that)
qed

section \<open>Fuzzy matching of titles\<close>

lemma isPrefixOf_iff: "isPrefixOf s l \<longleftrightarrow> (\<exists>q. l = s @ q)"
  by (induction s l rule: isPrefixOf.induct) auto

lemma includesStr_iff: "includesStr l s \<longleftrightarrow> (\<exists>p q. l = p @ s @ q)"
proof (induction l)
  case Nil
  then show ?case by auto
next
  case (Cons c cs)
  show ?case
  proof
    assume "includesStr (c # cs) s"
    then consider "isPrefixOf s (c # cs)" | "includesStr cs s" by auto
    then show "\<exists>p q. c # cs = p @ s @ q"
    proof cases
      case 1
      then obtain q where "c # cs = s @ q" by (auto simp: isPrefixOf_iff)
      then have "c # cs = [] @ s @ q" by simp
      then show ?thesis by blast
    next
      case 2
      with Cons.IH obtain p q where "cs = p @ s @ q" by auto
      then have "c # cs = (c # p) @ s @ q" by simp
      then show ?thesis by blast
    qed
  next
    assume "\<exists>p q. c # cs = p @ s @ q"
    then obtain p q where pq: "c # cs = p @ s @ q" by blast
    show "includesStr (c # cs) s"
    proof (cases p)
      case Nil
      with pq have "isPrefixOf s (c # cs)" by (auto simp: isPrefixOf_iff)
      then show ?thesis by simp
    next
      case (Cons a p')
      with pq have "cs = p' @ s @ q" by simp
      with Cons.IH have "includesStr cs s" by blast
      then show ?thesis by simp
    qed
  qed
qed

lemma aligned_count:
  "length (filter (\<lambda>(char, l). l = char) (zip s l))
     = length (filter (\<lambda>i. l ! i = s ! i) [0 ..< min (length s) (length l)])"
proof -
  have z: "zip s l = map (\<lambda>i. (s ! i, l ! i)) [0 ..< min (length s) (length l)]"
    by (auto simp: list_eq_iff_nth_eq)
  have "filter (\<lambda>(char, l). l = char) (zip s l)
        = map (\<lambda>i. (s ! i, l ! i)) (filter (\<lambda>i. l ! i = s ! i) [0 ..< min (length s) (length l)])"
    by (subst z) (auto simp: filter_map comp_def intro: filter_cong)
  then show ?thesis by simp
qed

text \<open>
  The similarity as the specification words it: the length ratio when the shorter normalized
  title occurs inside the longer one, otherwise the number of positions at which the two
  agree, over the length of the longer.
\<close>

definition specSimilarity :: "string \<Rightarrow> string \<Rightarrow> real" where
  "specSimilarity s t =
     (let shorter = (if length s \<le> length t then s else t);
          longer = (if length s \<le> length t then t else s)
      in if (\<exists>p q. longer = p @ shorter @ q)
         then real (length shorter) / real (length longer)
         else real (length (filter (\<lambda>i. longer ! i = shorter ! i) [0 ..< length shorter]))
                / real (length longer))"

lemma calculateSimilarity_spec:
  assumes "t1 \<noteq> t2" "t1 \<noteq> []" "t2 \<noteq> []"
  shows "calculateSimilarity t1 t2 = specSimilarity t1 t2"
proof (cases "length t1 > length t2")
  case True
  then have m: "min (length t2) (length t1) = length t2" by simp
  from True assms show ?thesis
    by (simp add: calculateSimilarity_def specSimilarity_def includesStr_iff aligned_count m)
next
  case False
  then have m: "min (length t1) (length t2) = length t1" by simp
  from False assms show ?thesis
    by (simp add: calculateSimilarity_def specSimilarity_def includesStr_iff aligned_count m)
qed

text \<open>
  C3. For two items whose normalized titles are non-empty and different, \<open>isFuzzyMatch\<close>
  answers exactly whether the similarity is strictly above 0.85, the similarity being the
  one the specification describes; the scan of \<open>deduplicate\<close> over an existing group
  (\<open>findFuzzy\<close>) selects the group under the same condition.
\<close>

theorem C3_fuzzy_threshold:
  assumes "truthyV a" "truthyV b"
    and "titleOrEmpty a = Inr t1" "titleOrEmpty b = Inr t2"
    and "t1 \<noteq> []" "t2 \<noteq> []" "t1 \<noteq> t2"
  shows "isFuzzyMatch a b = Inr (specSimilarity t1 t2 > 0.85)
       \<and> calculateSimilarity t1 t2 = specSimilarity t1 t2
       \<and> findFuzzy a [(key, \<lparr> entryItem = b, entryIndex = i \<rparr>)]
           = Inr (if specSimilarity t1 t2 > 0.85
                  then Some (key, \<lparr> entryItem = b, entryIndex = i \<rparr>) else None)"
proof -
  have c: "calculateSimilarity t1 t2 = specSimilarity t1 t2"
    using assms(5-7) by (intro calculateSimilarity_spec)
  with assms have m: "isFuzzyMatch a b = Inr (specSimilarity t1 t2 > 0.85)"
    by (simp add: isFuzzyMatch_def)
  with c show ?thesis by simp
qed

text \<open>
  The boundary: a 17-character title inside a 20-character one has similarity exactly 0.85
  and is no match; 6 of 7 characters (0.857...) is one.
\<close>

theorem C3_fuzzy_threshold_witness:
  "isFuzzyMatch (JObj [(''title'', FStr ''Abcdefghij klmnopq'')])
                (JObj [(''title'', FStr ''abcdefghijklmnopqrst'')]) = Inr False
   \<and> specSimilarity ''abcdefghijklmnopq'' ''abcdefghijklmnopqrst'' = 17 / 20
   \<and> isFuzzyMatch (JObj [(''title'', FStr ''abcdef'')]) (JObj [(''title'', FStr ''abcdefg'')])
       = Inr True
   \<and> specSimilarity ''abcdef'' ''abcdefg'' = 6 / 7"
proof -
  let ?a = "JObj [(''title'', FStr ''Abcdefghij klmnopq'')]"
  let ?b = "JObj [(''title'', FStr ''abcdefghijklmnopqrst'')]"
  let ?c = "JObj [(''title'', FStr ''abcdef'')]"
  let ?d = "JObj [(''title'', FStr ''abcdefg'')]"
  have ta: "titleOrEmpty ?a = Inr ''abcdefghijklmnopq''"
    and tb: "titleOrEmpty ?b = Inr ''abcdefghijklmnopqrst''"
    and tc: "titleOrEmpty ?c = Inr ''abcdef''"
    and td: "titleOrEmpty ?d = Inr ''abcdefg''"
    by (simp_all add: titleOrEmpty_def str_eval)
  have s1: "calculateSimilarity ''abcdefghijklmnopq'' ''abcdefghijklmnopqrst'' = 17 / 20"
    and s2: "calculateSimilarity ''abcdef'' ''abcdefg'' = 6 / 7"
    by (simp_all add: calculateSimilarity_def)
  from C3_fuzzy_threshold[OF _ _ ta tb, where key = "''k''" and i = 0]
  have 1: "isFuzzyMatch ?a ?b = Inr (specSimilarity ''abcdefghijklmnopq'' ''abcdefghijklmnopqrst'' > 0.85)"
    and 2: "calculateSimilarity ''abcdefghijklmnopq'' ''abcdefghijklmnopqrst''
              = specSimilarity ''abcdefghijklmnopq'' ''abcdefghijklmnopqrst''"
    by simp_all
  from C3_fuzzy_threshold[OF _ _ tc td, where key = "''k''" and i = 0]
  have 3: "isFuzzyMatch ?c ?d = Inr (specSimilarity ''abcdef'' ''abcdefg'' > 0.85)"
    and 4: "calculateSimilarity ''abcdef'' ''abcdefg'' = specSimilarity ''abcdef'' ''abcdefg''"
    by simp_all
  from 1 2 3 4 s1 s2 show ?thesis by simp
qed

section \<open>Items that lack every dedup field\<close>













section \<open>Deduplicating a deduplicated list\<close>

text \<open>
  C6 as stated fails. Fuzzy matching is not transitive, and under \<open>newest\<close> (the default),
  \<open>best_quality\<close> and \<open>merge\<close> a group's item is replaced when a duplicate arrives. Below,
  \<open>abcdefg\<close> matches \<open>abcdef\<close> (6/7) and takes over its group, while \<open>bcdefg\<close> matched
  nothing when it was seen; in a second pass \<open>bcdefg\<close> matches \<open>abcdefg\<close> (6/7), so the
  two items of the first result collapse into one and a duplicate is reported.
\<close>

theorem C6_not_idempotent:
  "deduplicate vercelEnv clock0
     (Some [JObj [(''title'', FStr ''abcdef''), (''href'', FStr ''/m/1'')],
            JObj [(''title'', FStr ''bcdefg''), (''href'', FStr ''/m/2'')],
            JObj [(''title'', FStr ''abcdefg''), (''href'', FStr ''/m/3'')]]) defaultOptions
   = Inr \<lparr> items = [JObj [(''title'', FStr ''abcdefg''), (''href'', FStr ''/m/3''),
                           (''_sources'', FArr [FStr ''unknown''])],
                     JObj [(''title'', FStr ''bcdefg''), (''href'', FStr ''/m/2''),
                           (''_id'', FStr ''comic_2''), (''_hash'', FStr ''7nki93''),
                           (''_processedAt'', FNum 1000)]],
             duplicatesOut =
               [\<lparr> dupItem = JObj [(''title'', FStr ''abcdefg''), (''href'', FStr ''/m/3'')],
                  matchedWith = JObj [(''title'', FStr ''abcdef''), (''href'', FStr ''/m/1''),
                                      (''_id'', FStr ''comic_1''), (''_hash'', FStr ''nlhmoe''),
                                      (''_processedAt'', FNum 1000)],
                  dupHash = ''9h5891'' \<rparr>],
             statsTotal = 3, statsUnique = 2, statsDuplicates = 1 \<rparr>
   \<and> deduplicate vercelEnv clock0
     (Some [JObj [(''title'', FStr ''abcdefg''), (''href'', FStr ''/m/3''),
                  (''_sources'', FArr [FStr ''unknown''])],
            JObj [(''title'', FStr ''bcdefg''), (''href'', FStr ''/m/2''),
                  (''_id'', FStr ''comic_2''), (''_hash'', FStr ''7nki93''),
                  (''_processedAt'', FNum 1000)]]) defaultOptions
   = Inr \<lparr> items = [JObj [(''title'', FStr ''bcdefg''), (''href'', FStr ''/m/2''),
                           (''_id'', FStr ''comic_2''), (''_hash'', FStr ''7nki93''),
                           (''_processedAt'', FNum 1000),
                           (''_sources'', FArr [FStr ''unknown''])]],
             duplicatesOut =
               [\<lparr> dupItem = JObj [(''title'', FStr ''bcdefg''), (''href'', FStr ''/m/2''),
                                  (''_id'', FStr ''comic_2''), (''_hash'', FStr ''7nki93''),
                                  (''_processedAt'', FNum 1000)],
                  matchedWith = JObj [(''title'', FStr ''abcdefg''), (''href'', FStr ''/m/3''),
                                      (''_sources'', FArr [FStr ''unknown'']),
                                      (''_id'', FStr ''comic_3''), (''_hash'', FStr ''9h5891''),
                                      (''_processedAt'', FNum 1000)],
                  dupHash = ''7nki93'' \<rparr>],
             statsTotal = 2, statsUnique = 1, statsDuplicates = 1 \<rparr>"
  by (simp add: vercelEnv_def clock0_def dedup_eval hash_eval str_eval)

text \<open>
  The fields \<open>deduplicate\<close> writes into a new group's item. A list of dedup fields is
  free of them when no field path starts at one.
\<close>

definition enrichmentKeys :: "string set" where
  "enrichmentKeys = {''_id'', ''_hash'', ''_processedAt''}"

definition enrichmentFree :: "string list \<Rightarrow> bool" where
  "enrichmentFree fieldNames =
     list_all (\<lambda>f. case splitOn CHR ''.'' f of prop # props \<Rightarrow> prop \<notin> enrichmentKeys | [] \<Rightarrow> True)
       fieldNames"

text \<open>An array as an element of the item list is not a plain item (its \<open>length\<close> is
  readable but not copied by the spread).\<close>

definition plainItem :: "jsval \<Rightarrow> bool" where
  "plainItem x = (case x of JPrim (FArr xs) \<Rightarrow> False | _ \<Rightarrow> True)"

text \<open>Overwriting \<open>_processedAt\<close>, the one field a further pass writes anew.\<close>

definition restamp :: "int \<Rightarrow> jsval \<Rightarrow> jsval" where
  "restamp t y = (case y of JObj qs \<Rightarrow> JObj (AList.update ''_processedAt'' (FNum t) qs) | _ \<Rightarrow> y)"

text \<open>Two values that the fuzzy comparison cannot tell apart.\<close>

definition sameTitle :: "jsval \<Rightarrow> jsval \<Rightarrow> bool" where
  "sameTitle v w = (truthyV v = truthyV w \<and> getProp v ''title'' = getProp w ''title'')"

lemma titleOrEmpty_sameTitle: "sameTitle a a' \<Longrightarrow> titleOrEmpty a = titleOrEmpty a'"
  by (simp add: sameTitle_def titleOrEmpty_def)

lemma isFuzzyMatch_sameTitle:
  assumes "sameTitle a a'" "sameTitle b b'"
  shows "isFuzzyMatch a b = isFuzzyMatch a' b'"
proof -
  have "titleOrEmpty a = titleOrEmpty a'" "titleOrEmpty b = titleOrEmpty b'"
    "truthyV a = truthyV a'" "truthyV b = truthyV b'"
    using assms by (simp_all add: titleOrEmpty_sameTitle) (simp_all add: sameTitle_def)
  then show ?thesis by (simp only: isFuzzyMatch_def)
qed

lemma generateFuzzyKey_sameTitle:
  "sameTitle a a' \<Longrightarrow> generateFuzzyKey a = generateFuzzyKey a'"
  by (simp add: sameTitle_def generateFuzzyKey_def)

lemma findFuzzy_None_sameTitle:
  assumes "list_all2 (\<lambda>ke ke'. sameTitle (entryItem (snd ke)) (entryItem (snd ke'))) um um'"
    and "sameTitle x x'" and "findFuzzy x um = Inr None"
  shows "findFuzzy x' um' = Inr None"
  using assms
proof (induction um um' rule: list_all2_induct)
  case Nil
  then show ?case by simp
next
  case (Cons ke um ke' um')
  obtain k e k' e' where [simp]: "ke = (k, e)" "ke' = (k', e')"
    by (cases ke, cases ke')
  from Cons.hyps(1) Cons.prems(1)
  have "isFuzzyMatch x' (entryItem e') = isFuzzyMatch x (entryItem e)"
    by (simp add: isFuzzyMatch_sameTitle[of x x' "entryItem e" "entryItem e'"])
  with Cons show ?case by (auto split: sum.splits bool.splits if_splits)
qed

lemma getProp_update_other:
  "prop \<noteq> k \<Longrightarrow> getProp (JObj (AList.update k v ps)) prop = getProp (JObj ps) prop"
  by (simp add: update_conv')

lemma getProp_enrich:
  "prop \<notin> enrichmentKeys \<Longrightarrow> getProp (enrich (JObj ps) uid h t) prop = getProp (JObj ps) prop"
  by (simp add: enrich_def enrichmentKeys_def update_conv')

lemma getNestedValue_cong_first:
  assumes "\<And>prop props. splitOn CHR ''.'' f = prop # props \<Longrightarrow> getProp y prop = getProp x prop"
    and "truthyV y = truthyV x"
  shows "getNestedValue y f = getNestedValue x f"
  using assms by (auto simp: getNestedValue_def split: list.splits)

lemma hashContent_cong:
  assumes "\<And>f. f \<in> set fs \<Longrightarrow> getNestedValue y f = getNestedValue x f"
  shows "hashContent y fs = hashContent x fs"
proof -
  have "map (\<lambda>field. let value = getNestedValue y field
                      in if truthy value then trim (toLowerCase (toStr value)) else []) fs
      = map (\<lambda>field. let value = getNestedValue x field
                      in if truthy value then trim (toLowerCase (toStr value)) else []) fs"
    using assms by (intro map_cong) auto
  then show ?thesis by (simp only: hashContent_def)
qed

lemma generateHash_cong:
  assumes "\<And>f. f \<in> set fs \<Longrightarrow> getNestedValue y f = getNestedValue x f" "truthyV y = truthyV x"
  shows "generateHash env y fs = generateHash env x fs"
  using hashContent_cong[of fs y x] assms by (simp add: generateHash_def)

lemma generateHash_update:
  assumes "enrichmentFree fs" "k \<in> enrichmentKeys"
  shows "generateHash env (JObj (AList.update k v ps)) fs = generateHash env (JObj ps) fs"
proof (rule generateHash_cong)
  fix f assume "f \<in> set fs"
  with assms(1) have "case splitOn CHR ''.'' f of prop # props \<Rightarrow> prop \<notin> enrichmentKeys | [] \<Rightarrow> True"
    by (auto simp: enrichmentFree_def list_all_iff)
  with assms(2) show "getNestedValue (JObj (AList.update k v ps)) f = getNestedValue (JObj ps) f"
    by (intro getNestedValue_cong_first) (auto simp: update_conv')
qed simp

lemma enrichmentFree_default: "enrichmentFree [''title'', ''href'']"
  by (simp add: enrichmentFree_def enrichmentKeys_def)

lemma generateUniqueId_update:
  assumes "k \<in> enrichmentKeys"
  shows "generateUniqueId env (JObj (AList.update k v ps)) = generateUniqueId env (JObj ps)"
proof -
  have "k \<noteq> ''href''" using assms by (auto simp: enrichmentKeys_def)
  then have "getProp (JObj (AList.update k v ps)) ''href'' = getProp (JObj ps) ''href''"
    by (simp add: update_conv')
  then show ?thesis
    by (simp add: generateUniqueId_def Let_def generateHash_update[OF enrichmentFree_default assms]
          split: fval.splits)
qed

lemma sameTitle_update:
  "k \<in> enrichmentKeys \<Longrightarrow> sameTitle (JObj (AList.update k v ps)) (JObj ps)"
  by (auto simp: sameTitle_def enrichmentKeys_def update_conv')


lemma update_same: "map_of ps k = Some v \<Longrightarrow> AList.update k v ps = ps"
  by (induction ps) auto

text \<open>
  The shape of a result item that a later pass leaves alone: it carries the enrichment
  fields with the values the pass would compute for it, and it matches no group before it.
\<close>

definition settled :: "env \<Rightarrow> string list \<Rightarrow> (string \<times> entry) list \<Rightarrow> jsval \<Rightarrow> string \<Rightarrow> bool" where
  "settled env fs um y h =
     (\<exists>qs uid fk t.
        y = JObj qs \<and>
        map_of qs ''_id'' = Some (FStr uid) \<and>
        map_of qs ''_hash'' = Some (FStr h) \<and>
        map_of qs ''_processedAt'' = Some (FNum t) \<and>
        generateHash env y fs = h \<and>
        generateUniqueId env y = Inr uid \<and>
        generateFuzzyKey y = Inr fk \<and>
        (fk = [] \<or> findFuzzy y um = Inr None) \<and>
        map_of um h = None)"

inductive groups :: "env \<Rightarrow> string list \<Rightarrow> (string \<times> entry) list \<Rightarrow> bool"
  for env :: env and fs :: "string list" where
  groups_empty: "groups env fs []"
| groups_snoc: "groups env fs um \<Longrightarrow> settled env fs um y h \<Longrightarrow>
     groups env fs (um @ [(h, \<lparr> entryItem = y, entryIndex = i \<rparr>)])"

lemma settled_enrich:
  assumes "isObjectLike x" "plainItem x" "enrichmentFree fs"
    and "generateFuzzyKey x = Inr fk"
    and "findExisting st x (generateHash env x fs) fk = Inr None"
    and "generateUniqueId env x = Inr uid"
  shows "settled env fs (uniqueMap st) (enrich x uid (generateHash env x fs) t) (generateHash env x fs)"
proof -
  from assms(1,2) obtain ps where x: "x = JObj ps"
    by (cases x) (auto simp: isObjectLike_def plainItem_def split: fval.splits)
  let ?h = "generateHash env x fs"
  let ?q1 = "AList.update ''_id'' (FStr uid) ps"
  let ?q2 = "AList.update ''_hash'' (FStr ?h) ?q1"
  let ?q3 = "AList.update ''_processedAt'' (FNum t) ?q2"
  have y: "enrich x uid ?h t = JObj ?q3" by (simp add: enrich_def x)
  have k: "''_id'' \<in> enrichmentKeys" "''_hash'' \<in> enrichmentKeys" "''_processedAt'' \<in> enrichmentKeys"
    by (simp_all add: enrichmentKeys_def)
  have h: "generateHash env (JObj ?q3) fs = ?h"
    by (simp add: generateHash_update[OF assms(3)] k x)
  have u: "generateUniqueId env (JObj ?q3) = Inr uid"
    using assms(6) by (simp add: generateUniqueId_update k x)
  have st: "sameTitle (JObj ?q3) x"
    by (auto simp: sameTitle_def x update_conv')
  then have f: "generateFuzzyKey (JObj ?q3) = Inr fk"
    using assms(4) by (simp add: generateFuzzyKey_sameTitle[of "JObj ?q3" x])
  from assms(5) have n: "map_of (uniqueMap st) ?h = None" by (rule findExisting_None)
  have ff: "fk = [] \<or> findFuzzy (JObj ?q3) (uniqueMap st) = Inr None"
  proof (cases "fk = []")
    case False
    with assms(5) n have "findFuzzy x (uniqueMap st) = Inr None"
      by (simp add: findExisting_def)
    moreover have "list_all2 (\<lambda>ke ke'. sameTitle (entryItem (snd ke)) (entryItem (snd ke')))
        (uniqueMap st) (uniqueMap st)"
      by (simp add: list_all2_same sameTitle_def)
    moreover have "sameTitle x (JObj ?q3)" using st by (simp add: sameTitle_def)
    ultimately show ?thesis by (auto intro: findFuzzy_None_sameTitle)
  qed simp
  have m: "map_of ?q3 ''_id'' = Some (FStr uid)" "map_of ?q3 ''_hash'' = Some (FStr ?h)"
    "map_of ?q3 ''_processedAt'' = Some (FNum t)"
    by (simp_all add: update_conv')
  show ?thesis
    unfolding settled_def y using h u f ff n m by blast
qed


lemma dedupStep_duplicates_mono:
  assumes "dedupStep env opts clock st (i, x) = Inr st'"
  shows "\<exists>d. duplicates st' = duplicates st @ d"
  using assms by (cases rule: dedupStep_cases) auto

lemma dedupLoop_duplicates_mono:
  "dedupLoop env opts clock st xs = Inr st' \<Longrightarrow> \<exists>d. duplicates st' = duplicates st @ d"
proof (induction xs arbitrary: st)
  case Nil
  then show ?case by simp
next
  case (Cons ix xs)
  obtain i x where ix: "ix = (i, x)" by (cases ix)
  from Cons.prems obtain s1 where s1: "dedupStep env opts clock st (i, x) = Inr s1"
    and rest: "dedupLoop env opts clock s1 xs = Inr st'"
    by (auto simp: ix split: sum.splits)
  from dedupStep_duplicates_mono[OF s1] Cons.IH[OF rest] show ?case by auto
qed

text \<open>The strategies under which a group keeps its first item: \<open>oldest\<close>, and any
  name the code does not recognise (such as \<open>first\<close>, used by the paginated crawl).\<close>

definition keepsFirst :: "options \<Rightarrow> bool" where
  "keepsFirst opts = (optStrategy opts \<notin> {''merge'', ''best_quality'', ''newest''})"

lemma dedupStep_groups:
  assumes "dedupStep env opts clock st (i, x) = Inr st'"
    and "groups env (optFields opts) (uniqueMap st)"
    and "plainItem x" "enrichmentFree (optFields opts)"
    and "keepsFirst opts \<or> duplicates st' = duplicates st"
  shows "groups env (optFields opts) (uniqueMap st')"
  using assms(1)
proof (cases rule: dedupStep_cases)
  case skip
  with assms(2) show ?thesis by simp
next
  case (dup k e fk)
  with assms(5) have "uniqueMap st' = uniqueMap st" by (auto simp: keepsFirst_def)
  with assms(2) show ?thesis by simp
next
  case (new fk uid)
  from settled_enrich[OF new(1) assms(3,4) new(2,3,4)]
  have "settled env (optFields opts) (uniqueMap st)
          (enrich x uid (generateHash env x (optFields opts)) (clock i))
          (generateHash env x (optFields opts))" .
  from groups_snoc[OF assms(2) this] new(5) show ?thesis by simp
qed

lemma dedupLoop_groups:
  assumes "dedupLoop env opts clock st xs = Inr st'"
    and "groups env (optFields opts) (uniqueMap st)"
    and "\<forall>ix \<in> set xs. plainItem (snd ix)" "enrichmentFree (optFields opts)"
    and "keepsFirst opts \<or> duplicates st' = []"
  shows "groups env (optFields opts) (uniqueMap st')"
  using assms(1,2,3)
proof (induction xs arbitrary: st)
  case Nil
  then show ?case by simp
next
  case (Cons ix xs)
  obtain i x where ix: "ix = (i, x)" by (cases ix)
  from Cons.prems(1) obtain s1 where s1: "dedupStep env opts clock st (i, x) = Inr s1"
    and rest: "dedupLoop env opts clock s1 xs = Inr st'"
    by (auto simp: ix split: sum.splits)
  from dedupStep_duplicates_mono[OF s1] dedupLoop_duplicates_mono[OF rest] assms(5)
  have "keepsFirst opts \<or> duplicates s1 = duplicates st" by auto
  with dedupStep_groups[OF s1 Cons.prems(2) _ assms(4)] Cons.prems(3)
  have "groups env (optFields opts) (uniqueMap s1)" by (simp add: ix)
  from Cons.IH[OF rest this] Cons.prems(3) show ?case by simp
qed

text \<open>The second pass over the items of a settled list of groups.\<close>

definition restampAll :: "(nat \<Rightarrow> int) \<Rightarrow> (string \<times> entry) list \<Rightarrow> (string \<times> entry) list" where
  "restampAll clock um =
     map (\<lambda>jke. (fst (snd jke),
                  \<lparr> entryItem = restamp (clock (fst jke)) (entryItem (snd (snd jke))),
                    entryIndex = fst jke \<rparr>))
         (enumerate 0 um)"

lemma restampAll_snoc:
  "restampAll clock (um @ [(h, e)]) =
     restampAll clock um @ [(h, \<lparr> entryItem = restamp (clock (length um)) (entryItem e),
                                  entryIndex = length um \<rparr>)]"
  by (simp add: restampAll_def enumerate_append_eq)

lemma restampAll_keys: "map fst (restampAll clock um) = map fst um"
proof (induction um rule: rev_induct)
  case Nil
  then show ?case by (simp add: restampAll_def)
next
  case (snoc ke um)
  obtain h e where "ke = (h, e)" by (cases ke)
  with snoc show ?case by (simp add: restampAll_snoc)
qed

lemma sameTitle_restamp: "sameTitle y (restamp t y)"
  by (cases y) (auto simp: restamp_def sameTitle_def update_conv')

lemma restampAll_sameTitle:
  "list_all2 (\<lambda>ke ke'. sameTitle (entryItem (snd ke)) (entryItem (snd ke'))) um (restampAll clock um)"
proof (induction um rule: rev_induct)
  case Nil
  then show ?case by (simp add: restampAll_def)
next
  case (snoc ke um)
  obtain h e where [simp]: "ke = (h, e)" by (cases ke)
  from snoc show ?case
    by (simp add: restampAll_snoc list_all2_appendI sameTitle_restamp)
qed

lemma dedupLoop_append:
  "dedupLoop env opts clock st (xs @ ys) =
     (case dedupLoop env opts clock st xs of
        Inl err \<Rightarrow> Inl err
      | Inr st' \<Rightarrow> dedupLoop env opts clock st' ys)"
  by (induction xs arbitrary: st) (auto split: sum.splits)

lemma dedupStep_settled:
  assumes "settled env (optFields opts) um y h"
  shows "dedupStep env opts clock
           \<lparr> uniqueMap = restampAll clock um, duplicates = [], processOrder = map fst um \<rparr>
           (length um, y)
         = Inr \<lparr> uniqueMap = restampAll clock (um @ [(h, \<lparr> entryItem = y, entryIndex = i \<rparr>)]),
                 duplicates = [], processOrder = map fst um @ [h] \<rparr>"
proof -
  from assms obtain qs uid fk t where y: "y = JObj qs"
    and m: "map_of qs ''_id'' = Some (FStr uid)" "map_of qs ''_hash'' = Some (FStr h)"
      "map_of qs ''_processedAt'' = Some (FNum t)"
    and h: "generateHash env y (optFields opts) = h"
    and u: "generateUniqueId env y = Inr uid"
    and f: "generateFuzzyKey y = Inr fk"
    and ff: "fk = [] \<or> findFuzzy y um = Inr None"
    and n: "map_of um h = None"
    unfolding settled_def by blast
  let ?um2 = "restampAll clock um"
  let ?st2 = "\<lparr> uniqueMap = ?um2, duplicates = [], processOrder = map fst um \<rparr>"
  from n have "h \<notin> fst ` set um" by (simp add: map_of_eq_None_iff)
  then have "h \<notin> fst ` set ?um2" using restampAll_keys[of clock um] by (metis set_map)
  then have n2: "map_of ?um2 h = None" by (simp add: map_of_eq_None_iff)
  have ff2: "fk \<noteq> [] \<Longrightarrow> findFuzzy y ?um2 = Inr None"
    using ff findFuzzy_None_sameTitle[OF restampAll_sameTitle, of y y um clock]
    by (auto simp: sameTitle_def)
  have fe: "findExisting ?st2 y h fk = Inr None"
    using n2 ff2 by (auto simp: findExisting_def)
  have "AList.update ''_id'' (FStr uid) qs = qs" using m(1) by (rule update_same)
  moreover have "AList.update ''_hash'' (FStr h) qs = qs" using m(2) by (rule update_same)
  ultimately have en: "enrich y uid h (clock (length um)) = restamp (clock (length um)) y"
    by (simp add: enrich_def restamp_def y)
  have obj: "isObjectLike y" by (simp add: y isObjectLike_def)
  have "dedupStep env opts clock ?st2 (length um, y)
        = Inr (?st2\<lparr> uniqueMap := AList.update h
                        \<lparr> entryItem = enrich y uid h (clock (length um)), entryIndex = length um \<rparr> ?um2,
                      processOrder := processOrder ?st2 @ [h] \<rparr>)"
    using obj h f fe u by (simp add: dedupStep_def)
  also have "AList.update h \<lparr> entryItem = enrich y uid h (clock (length um)), entryIndex = length um \<rparr> ?um2
      = ?um2 @ [(h, \<lparr> entryItem = restamp (clock (length um)) y, entryIndex = length um \<rparr>)]"
    using n2 by (simp add: update_absent en)
  finally show ?thesis by (simp add: restampAll_snoc)
qed

lemma second_pass:
  assumes "groups env (optFields opts) um"
  shows "dedupLoop env opts clock initialState (enumerate 0 (map (\<lambda>ke. entryItem (snd ke)) um))
         = Inr \<lparr> uniqueMap = restampAll clock um, duplicates = [], processOrder = map fst um \<rparr>"
  using assms
proof (induction rule: groups.induct)
  case groups_empty
  then show ?case by (simp add: initialState_def restampAll_def)
next
  case (groups_snoc um y h i)
  have len: "length (map (\<lambda>ke. entryItem (snd ke)) um) = length um" by simp
  show ?case
    using groups_snoc.IH dedupStep_settled[OF groups_snoc.hyps(2), of clock i]
    by (simp add: enumerate_append_eq dedupLoop_append)
qed

lemma restampAll_items:
  "map (\<lambda>ke. entryItem (snd ke)) (restampAll clock um)
     = map (\<lambda>jy. restamp (clock (fst jy)) (snd jy))
           (enumerate 0 (map (\<lambda>ke. entryItem (snd ke)) um))"
proof (induction um rule: rev_induct)
  case Nil
  then show ?case by (simp add: restampAll_def)
next
  case (snoc ke um)
  obtain h e where "ke = (h, e)" by (cases ke)
  with snoc show ?case by (simp add: restampAll_snoc enumerate_append_eq)
qed

text \<open>
  C6 (amended). Let \<open>deduplicate\<close> have returned \<open>r1\<close> for a list of plain items, with
  dedup fields that do not name the enrichment fields, and let the strategy keep the first
  item of a group, or the first call have reported no duplicate. Then a second call on
  \<open>items r1\<close> with the same options returns these items in the same order and reports no
  duplicate; each item is unchanged except that \<open>_processedAt\<close> holds the time of the
  second call.
\<close>

theorem C6_second_pass:
  assumes run1: "deduplicate env clock1 (Some its) opts = Inr r1"
    and plain: "\<forall>x \<in> set its. plainItem x"
    and free: "enrichmentFree (optFields opts)"
    and keep: "keepsFirst opts \<or> duplicatesOut r1 = []"
  shows "deduplicate env clock2 (Some (items r1)) opts =
           Inr \<lparr> items = map (\<lambda>jy. restamp (clock2 (fst jy)) (snd jy)) (enumerate 0 (items r1)),
                 duplicatesOut = [], statsTotal = length (items r1),
                 statsUnique = length (items r1), statsDuplicates = 0 \<rparr>"
proof -
  from run1 obtain st where
    loop: "dedupLoop env opts clock1 initialState (enumerate 0 its) = Inr st" and
    ok: "keysOk st" and
    r1: "r1 = \<lparr> items = map (\<lambda>ke. entryItem (snd ke)) (uniqueMap st), duplicatesOut = duplicates st,
           statsTotal = length its, statsUnique = length (uniqueMap st),
           statsDuplicates = length (duplicates st) \<rparr>"
    by (rule deduplicate_result)
  have p: "\<forall>ix \<in> set (enumerate 0 its). plainItem (snd ix)"
    using plain by (auto simp: in_set_enumerate_eq)
  have g0: "groups env (optFields opts) (uniqueMap initialState)"
    by (simp add: initialState_def groups_empty)
  from keep r1 have "keepsFirst opts \<or> duplicates st = []" by simp
  from dedupLoop_groups[OF loop g0 p free this]
  have g: "groups env (optFields opts) (uniqueMap st)" .
  let ?um = "uniqueMap st"
  have its: "items r1 = map (\<lambda>ke. entryItem (snd ke)) ?um" by (simp add: r1)
  have loop2: "dedupLoop env opts clock2 initialState (enumerate 0 (items r1))
         = Inr \<lparr> uniqueMap = restampAll clock2 ?um, duplicates = [], processOrder = map fst ?um \<rparr>"
    unfolding its by (rule second_pass[OF g])
  from ok have "distinct (map fst (restampAll clock2 ?um))"
    by (simp add: restampAll_keys keysOk_def)
  from collectItems_all[OF this]
  have c: "collectItems (restampAll clock2 ?um) (map fst ?um)
        = Inr (map (\<lambda>ke. entryItem (snd ke)) (restampAll clock2 ?um))"
    by (simp add: restampAll_keys)
  have len: "length (restampAll clock2 ?um) = length (items r1)"
    using restampAll_keys[of clock2 ?um] its by (metis length_map)
  show ?thesis
    by (simp add: deduplicate_def loop2 c len) (simp add: restampAll_items its)
qed

text \<open>
  The specification's first example under \<open>oldest\<close>: \<open>One Piece\<close> and \<open>one piece\<close> at the
  same address collapse; the result is returned as it is by a second pass at the same time.
\<close>

theorem C6_second_pass_witness:
  "deduplicate vercelEnv clock0
     (Some [JObj [(''title'', FStr ''One Piece''), (''href'', FStr ''/m/1'')],
            JObj [(''title'', FStr ''one piece''), (''href'', FStr ''/m/1'')],
            JObj [(''title'', FStr ''Naruto''), (''href'', FStr ''/m/2'')]])
     (defaultOptions\<lparr> optStrategy := ''oldest'' \<rparr>)
   = Inr \<lparr> items = [JObj [(''title'', FStr ''One Piece''), (''href'', FStr ''/m/1''),
                           (''_id'', FStr ''comic_1''), (''_hash'', FStr ''lsr4o5''),
                           (''_processedAt'', FNum 1000)],
                     JObj [(''title'', FStr ''Naruto''), (''href'', FStr ''/m/2''),
                           (''_id'', FStr ''comic_2''), (''_hash'', FStr ''xb8hyh''),
                           (''_processedAt'', FNum 1000)]],
             duplicatesOut =
               [\<lparr> dupItem = JObj [(''title'', FStr ''one piece''), (''href'', FStr ''/m/1'')],
                  matchedWith = JObj [(''title'', FStr ''One Piece''), (''href'', FStr ''/m/1''),
                                      (''_id'', FStr ''comic_1''), (''_hash'', FStr ''lsr4o5''),
                                      (''_processedAt'', FNum 1000)],
                  dupHash = ''lsr4o5'' \<rparr>],
             statsTotal = 3, statsUnique = 2, statsDuplicates = 1 \<rparr>
   \<and> deduplicate vercelEnv clock0
     (Some [JObj [(''title'', FStr ''One Piece''), (''href'', FStr ''/m/1''),
                  (''_id'', FStr ''comic_1''), (''_hash'', FStr ''lsr4o5''),
                  (''_processedAt'', FNum 1000)],
            JObj [(''title'', FStr ''Naruto''), (''href'', FStr ''/m/2''),
                  (''_id'', FStr ''comic_2''), (''_hash'', FStr ''xb8hyh''),
                  (''_processedAt'', FNum 1000)]])
     (defaultOptions\<lparr> optStrategy := ''oldest'' \<rparr>)
   = Inr \<lparr> items = [JObj [(''title'', FStr ''One Piece''), (''href'', FStr ''/m/1''),
                           (''_id'', FStr ''comic_1''), (''_hash'', FStr ''lsr4o5''),
                           (''_processedAt'', FNum 1000)],
                     JObj [(''title'', FStr ''Naruto''), (''href'', FStr ''/m/2''),
                           (''_id'', FStr ''comic_2''), (''_hash'', FStr ''xb8hyh''),
                           (''_processedAt'', FNum 1000)]],
             duplicatesOut = [], statsTotal = 2, statsUnique = 2, statsDuplicates = 0 \<rparr>"
proof -
  let ?opts = "defaultOptions\<lparr> optStrategy := ''oldest'' \<rparr>"
  let ?its = "[JObj [(''title'', FStr ''One Piece''), (''href'', FStr ''/m/1'')],
               JObj [(''title'', FStr ''one piece''), (''href'', FStr ''/m/1'')],
               JObj [(''title'', FStr ''Naruto''), (''href'', FStr ''/m/2'')]]"
  let ?r1 = "\<lparr> items = [JObj [(''title'', FStr ''One Piece''), (''href'', FStr ''/m/1''),
                           (''_id'', FStr ''comic_1''), (''_hash'', FStr ''lsr4o5''),
                           (''_processedAt'', FNum 1000)],
                     JObj [(''title'', FStr ''Naruto''), (''href'', FStr ''/m/2''),
                           (''_id'', FStr ''comic_2''), (''_hash'', FStr ''xb8hyh''),
                           (''_processedAt'', FNum 1000)]],
             duplicatesOut =
               [\<lparr> dupItem = JObj [(''title'', FStr ''one piece''), (''href'', FStr ''/m/1'')],
                  matchedWith = JObj [(''title'', FStr ''One Piece''), (''href'', FStr ''/m/1''),
                                      (''_id'', FStr ''comic_1''), (''_hash'', FStr ''lsr4o5''),
                                      (''_processedAt'', FNum 1000)],
                  dupHash = ''lsr4o5'' \<rparr>],
             statsTotal = 3, statsUnique = 2, statsDuplicates = 1 \<rparr>"
  have run1: "deduplicate vercelEnv clock0 (Some ?its) ?opts = Inr ?r1"
    by (simp add: vercelEnv_def clock0_def dedup_eval hash_eval str_eval)
  have plain: "\<forall>x \<in> set ?its. plainItem x" by (simp add: plainItem_def)
  have free: "enrichmentFree (optFields ?opts)"
    by (simp add: defaultOptions_def enrichmentFree_def enrichmentKeys_def)
  have keep: "keepsFirst ?opts \<or> duplicatesOut ?r1 = []"
    by (simp add: keepsFirst_def defaultOptions_def)
  from C6_second_pass[OF run1 plain free keep, of clock0] run1
  show ?thesis by (simp add: restamp_def clock0_def)
qed

section \<open>New-item detection replaces its baseline\<close>

lemma detectLoop_hashes:
  "currentHashes (detectLoop env prev st its) =
     currentHashes st \<union> set (map (\<lambda>item. generateHash env item [''title'', ''href'']) its)"
  by (induction its arbitrary: st) (auto simp: Let_def)

lemma detectLoop_all_existing:
  "\<forall>item \<in> set its. generateHash env item [''title'', ''href''] \<in> prev \<Longrightarrow>
   newAcc (detectLoop env prev st its) = newAcc st \<and>
   existingAcc (detectLoop env prev st its) = existingAcc st @ its"
  by (induction its arbitrary: st) (auto simp: Let_def)

text \<open>
  C8. \<open>detectNewItems\<close> overwrites the stored set of the context with the set of the
  current items' fingerprints, whatever was stored before; a second call with the same
  items and context then reports no new item and every item as existing.
\<close>

theorem C8_detect_twice:
  "(let (r1, index1) = detectNewItems env index0 (Some its) context;
        (r2, index2) = detectNewItems env index1 (Some its) context
    in index1 = index0(''dedupe_'' @ context \<mapsto>
                   set (map (\<lambda>item. generateHash env item [''title'', ''href'']) its))
       \<and> newItems r2 = [] \<and> existingItems r2 = its \<and> index2 = index1)"
proof -
  let ?hs = "set (map (\<lambda>item. generateHash env item [''title'', ''href'']) its)"
  have "\<forall>item \<in> set its. generateHash env item [''title'', ''href''] \<in> ?hs" by auto
  from detectLoop_all_existing[OF this]
  show ?thesis
    by (auto simp: detectNewItems_def Let_def detectLoop_hashes)
qed

theorem C8_detect_twice_witness:
  "newItems (fst (detectNewItems vercelEnv
       (snd (detectNewItems vercelEnv Map.empty
               (Some [JObj [(''title'', FStr ''Naruto''), (''href'', FStr ''/m/2'')]]) ''multi_latest''))
       (Some [JObj [(''title'', FStr ''Naruto''), (''href'', FStr ''/m/2'')]]) ''multi_latest'')) = []
   \<and> newItems (fst (detectNewItems vercelEnv Map.empty
               (Some [JObj [(''title'', FStr ''Naruto''), (''href'', FStr ''/m/2'')]]) ''multi_latest''))
       = [JObj [(''title'', FStr ''Naruto''), (''href'', FStr ''/m/2''), (''_isNew'', FBool True)]]"
  using C8_detect_twice[of vercelEnv Map.empty
          "[JObj [(''title'', FStr ''Naruto''), (''href'', FStr ''/m/2'')]]" "''multi_latest''"]
  by (simp add: Let_def detectNewItems_def split: prod.splits)


section \<open>Orchestrator: provider health (soft circuit breaker)\<close>












section \<open>Well-typed items raise no exception\<close>






















section \<open>Orchestrator: results of a scrape\<close>

text \<open>
  The data a source adapter delivers is a flat array of items (\<open>PArray\<close>), a pagination
  wrapper \<open>{current_page, length_page, data: [...]}\<close> (\<open>PWrapper\<close>; a page number that is
  not a number is \<open>None\<close>), or something else, of which only the truthiness matters
  (\<open>POther\<close>: a detail record, \<open>null\<close>). \<open>scrape\<close> resolves to an envelope
  \<open>{success, data, ...}\<close> around the processed data, or, when it found the operation in
  flight, to whatever the in-flight promise resolves to, the adapter's data itself
  (\<open>Raw\<close>). \<open>resultData\<close> is the property read \<open>result.data\<close>.
\<close>

record wrapper =
  wData :: "jsval list"
  current_page :: "int option"
  length_page :: "int option"

datatype payload = PArray "jsval list" | PWrapper wrapper | POther bool

datatype scrapeReturn = Envelope payload | Raw payload

definition resultData :: "scrapeReturn \<Rightarrow> payload" where
  "resultData result =
     (case result of
        Envelope p \<Rightarrow> p
      | Raw (PWrapper w) \<Rightarrow> PArray (wData w)
      | Raw p \<Rightarrow> POther False)"

definition payloadTruthy :: "payload \<Rightarrow> bool" where
  "payloadTruthy p = (case p of POther b \<Rightarrow> b | _ \<Rightarrow> True)"

definition resultTruthy :: "scrapeReturn \<Rightarrow> bool" where
  "resultTruthy result = (case result of Envelope p \<Rightarrow> True | Raw p \<Rightarrow> payloadTruthy p)"

section \<open>Orchestrator: multi-provider aggregation\<close>

text \<open>
  \<open>scrapeMultiProvider\<close> starts one \<open>scrape\<close> per provider, each raced against a timeout,
  and waits for all of them. What the \<open>i\<close>-th race settles to is given by \<open>settle i p\<close>:
  fulfilled with a result, failed with a message (the error is caught and reported with the
  provider id), or rejected (an exception escaping the handler, reported without an id).
  The effects of the individual \<open>scrape\<close> calls on cache and health are theirs and not
  repeated here; \<open>registered\<close> is the list of provider ids of \<open>listProviders()\<close>. The
  failure rate is a quotient of two list lengths compared with the caller's threshold; when
  it matters (no success) it is exactly 1, so it is taken in the reals.
\<close>

datatype settledOutcome =
    Succeeded scrapeReturn
  | Failed string
  | Rejected "string option"

record providerError =
  errProviderId :: "string option"
  errMessage :: string





fun collectSettled ::
  "(string \<times> settledOutcome) list \<Rightarrow> (string \<times> scrapeReturn) list \<times> providerError list" where
  "collectSettled [] = ([], [])"
| "collectSettled ((providerId, outcome) # rest) =
     (case collectSettled rest of (results, errors) \<Rightarrow>
        (case outcome of
           Succeeded result \<Rightarrow> ((providerId, result) # results, errors)
         | Failed msg \<Rightarrow>
             (results, \<lparr> errProviderId = Some providerId, errMessage = msg \<rparr> # errors)
         | Rejected reason \<Rightarrow>
             (results,
              \<lparr> errProviderId = None,
                errMessage = (case reason of Some msg \<Rightarrow> if msg = [] then ''Unknown error'' else msg
                              | None \<Rightarrow> ''Unknown error'') \<rparr> # errors)))"






lemma collectSettled_lengths:
  "collectSettled xs = (results, errors) \<Longrightarrow> length results + length errors = length xs"
proof (induction xs arbitrary: results errors)
  case Nil
  then show ?case by simp
next
  case (Cons po xs)
  obtain p outcome where [simp]: "po = (p, outcome)" by (cases po)
  obtain rs es where rest: "collectSettled xs = (rs, es)" by (cases "collectSettled xs")
  from Cons.IH[OF rest] Cons.prems rest show ?case
    by (cases outcome) auto
qed






section \<open>Orchestrator: paginated crawl\<close>

text \<open>
  \<open>scrapePaginated\<close> fetches pages one after another with \<open>scrape\<close>. What the call for
  page \<open>p\<close> does is given by \<open>fetch p\<close>: it returns a result or throws. The body of the
  \<open>while\<close> loop is \<open>pageStep\<close>, which returns the new state and whether the loop goes on
  (\<open>False\<close> is a \<open>break\<close>); \<open>pageFailure\<close> is the \<open>catch\<close> block, \<open>duplicateStop\<close>
  the duplicate-rate test and \<open>acceptPage\<close> the rest of the \<open>try\<close> block. \<open>requested\<close>
  is not a variable of the code: it logs the page numbers passed to \<open>scrape\<close>. The
  duplicate rate is computed in the reals; no statement below depends on its value.
\<close>

record pageOptions =
  pOperation :: string
  pProviderId :: string
  maxPages :: int
  startPage :: int
  stopOnEmpty :: bool
  stopOnDuplicate :: bool
  duplicateThreshold :: real

datatype pageOutcome = PageReturned scrapeReturn | PageFailed error

record pageResult =
  prPage :: int
  prCount :: nat
  prSuccess :: bool
  prError :: "error option"

record pageState =
  allData :: "jsval list"
  pageResults :: "pageResult list"
  currentPage :: int
  consecutiveEmpty :: nat
  lastPagination :: "(int option \<times> int option) option"
  requested :: "int list"

record paginatedResult =
  pgSuccess :: bool
  pgData :: "jsval list"
  pgPagination :: "(int option \<times> int option) option"
  pgPageResults :: "pageResult list"
  pgTotalPages :: nat
  pgSuccessfulPages :: nat
  pgTotalItems :: nat
  pgUniqueItems :: nat
  pgDuplicatesRemoved :: nat

definition firstOptions :: options where
  "firstOptions = \<lparr> optFields = [''title'', ''href''], optStrategy = ''first'',
     optContext = ''default'',
     optMergeFields = [''genre'', ''chapter'', ''rating'', ''description''] \<rparr>"

definition paginatedOptions :: "string \<Rightarrow> options" where
  "paginatedOptions operation =
     \<lparr> optFields = [''title'', ''href''], optStrategy = ''best_quality'',
       optContext = ''paginated_'' @ operation,
       optMergeFields = [''genre'', ''chapter'', ''rating'', ''description''] \<rparr>"

definition pageDataOf :: "scrapeReturn \<Rightarrow> jsval list \<times> (int option \<times> int option) option" where
  "pageDataOf result =
     (if payloadTruthy (resultData result) then
        (case resultData result of
           PArray xs \<Rightarrow> (xs, None)
         | PWrapper w \<Rightarrow> (wData w, Some (current_page w, length_page w))
         | POther b \<Rightarrow> ([], None))
      else ([], None))"

definition pageFailure :: "pageOptions \<Rightarrow> pageState \<Rightarrow> error \<Rightarrow> pageState \<times> bool" where
  "pageFailure opts st err =
     (let st' = st\<lparr> pageResults := pageResults st @
                  [\<lparr> prPage = currentPage st, prCount = 0, prSuccess = False,
                     prError = Some err \<rparr>] \<rparr>
      in if stopOnEmpty opts then (st', False)
         else (st'\<lparr> currentPage := currentPage st' + 1 \<rparr>, True))"

definition duplicateStop ::
  "env \<Rightarrow> (nat \<Rightarrow> int) \<Rightarrow> pageOptions \<Rightarrow> jsval list \<Rightarrow> jsval list \<Rightarrow> error + bool" where
  "duplicateStop env clock opts collected pageData =
     (if stopOnDuplicate opts \<and> length collected > 0 \<and> length pageData > 0 then
        (case deduplicate env clock (Some (collected @ pageData)) firstOptions of
           Inl err \<Rightarrow> Inl err
         | Inr dedupeResult \<Rightarrow>
             let newItems = int (length (items dedupeResult)) - int (length collected);
                 duplicateRate = 1 - real_of_int newItems / real (length pageData)
             in Inr (duplicateRate \<ge> duplicateThreshold opts))
      else Inr False)"

definition acceptPage ::
  "pageState \<Rightarrow> jsval list \<Rightarrow> (int option \<times> int option) option \<Rightarrow> pageState \<times> bool" where
  "acceptPage st pageData pagination =
     (let st' = st\<lparr> allData := allData st @ pageData,
                     pageResults := pageResults st @
                       [\<lparr> prPage = currentPage st, prCount = length pageData,
                          prSuccess = True, prError = None \<rparr>],
                     lastPagination := pagination \<rparr>
      in if (case pagination of
               Some (cp, Some lp) \<Rightarrow> currentPage st' \<ge> lp
             | _ \<Rightarrow> False)
         then (st', False)
         else (st'\<lparr> currentPage := currentPage st' + 1 \<rparr>, True))"

definition pageStep ::
  "env \<Rightarrow> (nat \<Rightarrow> int) \<Rightarrow> pageOptions \<Rightarrow> (int \<Rightarrow> pageOutcome) \<Rightarrow> pageState \<Rightarrow> pageState \<times> bool"
where
  "pageStep env clock opts fetch st0 =
     (let st = st0\<lparr> requested := requested st0 @ [currentPage st0] \<rparr>
      in case fetch (currentPage st) of
           PageFailed err \<Rightarrow> pageFailure opts st err
         | PageReturned result \<Rightarrow>
             if \<not> resultTruthy result then pageFailure opts st TypeError
             else
               (case pageDataOf result of (pageData, pagination) \<Rightarrow>
                  let st1 = st\<lparr> consecutiveEmpty :=
                                   (if length pageData = 0 then consecutiveEmpty st + 1 else 0) \<rparr>
                  in if length pageData = 0 \<and> stopOnEmpty opts \<and> consecutiveEmpty st1 \<ge> 2
                     then (st1, False)
                     else
                       (case duplicateStop env clock opts (allData st1) pageData of
                          Inl err \<Rightarrow> pageFailure opts st1 err
                        | Inr True \<Rightarrow> (st1, False)
                        | Inr False \<Rightarrow> acceptPage st1 pageData pagination)))"

lemma pageFailure_continue:
  "pageFailure opts st err = (st', True) \<Longrightarrow> currentPage st' = currentPage st + 1"
  by (auto simp: pageFailure_def Let_def split: if_splits)

lemma acceptPage_continue:
  "acceptPage st pageData pagination = (st', True) \<Longrightarrow> currentPage st' = currentPage st + 1"
  by (auto simp: acceptPage_def Let_def split: if_splits)

lemma pageStep_continue:
  "pageStep env clock opts fetch st = (st', True) \<Longrightarrow> currentPage st' = currentPage st + 1"
  by (auto simp: pageStep_def Let_def split: pageOutcome.splits if_splits prod.splits sum.splits
                                           bool.splits
           dest!: pageFailure_continue acceptPage_continue)

function pageLoop ::
  "env \<Rightarrow> (nat \<Rightarrow> int) \<Rightarrow> pageOptions \<Rightarrow> (int \<Rightarrow> pageOutcome) \<Rightarrow> pageState \<Rightarrow> pageState"
where
  "pageLoop env clock opts fetch st =
     (if currentPage st \<le> startPage opts + maxPages opts - 1 then
        (case pageStep env clock opts fetch st of
           (st', continue) \<Rightarrow> if continue then pageLoop env clock opts fetch st' else st')
      else st)"
  by pat_completeness auto
termination
  apply (relation "measure (\<lambda>(env, clock, opts, fetch, st).
                   nat (startPage opts + maxPages opts - currentPage st))")
   apply simp
  apply (auto dest!: pageStep_continue[OF sym])
  done

declare pageLoop.simps [simp del]

definition initialPageState :: "pageOptions \<Rightarrow> pageState" where
  "initialPageState opts =
     \<lparr> allData = [], pageResults = [], currentPage = startPage opts, consecutiveEmpty = 0,
       lastPagination = None, requested = [] \<rparr>"

definition scrapePaginated ::
  "env \<Rightarrow> (nat \<Rightarrow> int) \<Rightarrow> pageOptions \<Rightarrow> (int \<Rightarrow> pageOutcome) \<Rightarrow> error + paginatedResult" where
  "scrapePaginated env clock opts fetch =
     (let st = pageLoop env clock opts fetch (initialPageState opts)
      in case deduplicate env clock (Some (allData st)) (paginatedOptions (pOperation opts)) of
           Inl err \<Rightarrow> Inl err
         | Inr dedupeResult \<Rightarrow>
             Inr \<lparr> pgSuccess = (length (allData st) > 0),
                   pgData = items dedupeResult,
                   pgPagination = lastPagination st,
                   pgPageResults = pageResults st,
                   pgTotalPages = length (pageResults st),
                   pgSuccessfulPages = length (filter prSuccess (pageResults st)),
                   pgTotalItems = length (allData st),
                   pgUniqueItems = length (items dedupeResult),
                   pgDuplicatesRemoved = statsDuplicates dedupeResult \<rparr>)"

lemma pageLoop_done:
  "\<not> currentPage st \<le> startPage opts + maxPages opts - 1 \<Longrightarrow> pageLoop env clock opts fetch st = st"
  by (simp add: pageLoop.simps)

lemma pageLoop_step:
  "currentPage st \<le> startPage opts + maxPages opts - 1 \<Longrightarrow>
   pageLoop env clock opts fetch st =
     (if snd (pageStep env clock opts fetch st)
      then pageLoop env clock opts fetch (fst (pageStep env clock opts fetch st))
      else fst (pageStep env clock opts fetch st))"
  by (subst pageLoop.simps) (simp add: case_prod_beta)

text \<open>A page that returns zero items, and the items a page contributes.\<close>

definition zeroItems :: "pageOutcome \<Rightarrow> bool" where
  "zeroItems outcome =
     (case outcome of
        PageReturned result \<Rightarrow> resultTruthy result \<and> fst (pageDataOf result) = []
      | PageFailed err \<Rightarrow> False)"

definition pageItemsAt :: "(int \<Rightarrow> pageOutcome) \<Rightarrow> int \<Rightarrow> jsval list" where
  "pageItemsAt fetch p =
     (case fetch p of
        PageReturned result \<Rightarrow> if resultTruthy result then fst (pageDataOf result) else []
      | PageFailed err \<Rightarrow> [])"

lemma pageFailure_fields:
  "requested (fst (pageFailure opts st err)) = requested st"
  "allData (fst (pageFailure opts st err)) = allData st"
  "pageResults (fst (pageFailure opts st err)) =
     pageResults st @ [\<lparr> prPage = currentPage st, prCount = 0, prSuccess = False, prError = Some err \<rparr>]"
  "snd (pageFailure opts st err) = (\<not> stopOnEmpty opts)"
  by (simp_all add: pageFailure_def Let_def)


lemma pageStep_zero_stop:
  assumes "zeroItems (fetch (currentPage st))" "stopOnEmpty opts" "consecutiveEmpty st \<ge> 1"
  shows "\<not> snd (pageStep env clock opts fetch st)"
  using assms
  by (auto simp: pageStep_def Let_def zeroItems_def split: pageOutcome.splits prod.splits)

lemma pageStep_zero_count:
  assumes "zeroItems (fetch (currentPage st))" "stopOnEmpty opts"
    and "snd (pageStep env clock opts fetch st)"
  shows "consecutiveEmpty (fst (pageStep env clock opts fetch st)) \<ge> 1"
  using assms
  by (auto simp: pageStep_def Let_def zeroItems_def duplicateStop_def pageFailure_def acceptPage_def
           split: pageOutcome.splits prod.splits if_splits option.splits)

lemma pageStep_currentPage:
  "snd (pageStep env clock opts fetch st) \<Longrightarrow>
   currentPage (fst (pageStep env clock opts fetch st)) = currentPage st + 1"
  using pageStep_continue[of env clock opts fetch st "fst (pageStep env clock opts fetch st)"]
  by (cases "pageStep env clock opts fetch st") auto

text \<open>What one iteration can do to the collected data and to the page log.\<close>

lemma pageStep_cases:
  obtains (failure) base err where
      "pageStep env clock opts fetch st = pageFailure opts base err"
      "requested base = requested st @ [currentPage st]" "allData base = allData st"
      "pageResults base = pageResults st" "currentPage base = currentPage st"
  | (stopped) st1 where
      "pageStep env clock opts fetch st = (st1, False)"
      "requested st1 = requested st @ [currentPage st]" "allData st1 = allData st"
      "pageResults st1 = pageResults st"
  | (accepted) result st2 continue where
      "fetch (currentPage st) = PageReturned result" "resultTruthy result"
      "pageStep env clock opts fetch st = (st2, continue)"
      "requested st2 = requested st @ [currentPage st]"
      "allData st2 = allData st @ fst (pageDataOf result)"
      "pageResults st2 = pageResults st @
         [\<lparr> prPage = currentPage st, prCount = length (fst (pageDataOf result)),
            prSuccess = True, prError = None \<rparr>]"
proof (cases "fetch (currentPage st)")
  case (PageFailed err)
  then have "pageStep env clock opts fetch st
      = pageFailure opts (st\<lparr> requested := requested st @ [currentPage st] \<rparr>) err"
    by (simp add: pageStep_def)
  then show ?thesis by (rule failure) simp_all
next
  case (PageReturned result)
  let ?st = "st\<lparr> requested := requested st @ [currentPage st] \<rparr>"
  show ?thesis
  proof (cases "resultTruthy result")
    case False
    with PageReturned have "pageStep env clock opts fetch st = pageFailure opts ?st TypeError"
      by (simp add: pageStep_def)
    then show ?thesis by (rule failure) simp_all
  next
    case truthy: True
    obtain pageData pagination where pd: "pageDataOf result = (pageData, pagination)"
      by (cases "pageDataOf result")
    let ?st1 = "?st\<lparr> consecutiveEmpty :=
                   (if length pageData = 0 then consecutiveEmpty ?st + 1 else 0) \<rparr>"
    show ?thesis
    proof (cases "length pageData = 0 \<and> stopOnEmpty opts \<and> consecutiveEmpty ?st1 \<ge> 2")
      case True
      then have "pageData = []" "stopOnEmpty opts" "Suc 0 \<le> consecutiveEmpty st"
        by (auto split: if_splits)
      with PageReturned truthy pd have "pageStep env clock opts fetch st = (?st1, False)"
        by (simp add: pageStep_def Let_def)
      then show ?thesis by (rule stopped) simp_all
    next
      case noStop: False
      show ?thesis
      proof (cases "duplicateStop env clock opts (allData ?st1) pageData")
        case (Inl err)
        with PageReturned truthy pd noStop
        have "pageStep env clock opts fetch st = pageFailure opts ?st1 err"
          by (auto simp: pageStep_def Let_def)
        then show ?thesis by (rule failure) simp_all
      next
        case (Inr b)
        show ?thesis
        proof (cases b)
          case True
          with Inr PageReturned truthy pd noStop
          have "pageStep env clock opts fetch st = (?st1, False)"
            by (auto simp: pageStep_def Let_def)
          then show ?thesis by (rule stopped) simp_all
        next
          case False
          with Inr PageReturned truthy pd noStop
          have "pageStep env clock opts fetch st = acceptPage ?st1 pageData pagination"
            by (auto simp: pageStep_def Let_def)
          then have "pageStep env clock opts fetch st
                = (fst (acceptPage ?st1 pageData pagination), snd (acceptPage ?st1 pageData pagination))"
            by simp
          from PageReturned truthy this show ?thesis
            by (rule accepted) (simp_all add: pd acceptPage_def Let_def)
        qed
      qed
    qed
  qed
qed

lemma pageStep_requested:
  "requested (fst (pageStep env clock opts fetch st)) = requested st @ [currentPage st]"
  by (cases rule: pageStep_cases[of env clock opts fetch st]) (simp_all add: pageFailure_fields)

lemma pageStep_data:
  assumes "allData st = concat (map (\<lambda>pr. pageItemsAt fetch (prPage pr))
                                   (filter prSuccess (pageResults st)))"
  shows "allData (fst (pageStep env clock opts fetch st))
           = concat (map (\<lambda>pr. pageItemsAt fetch (prPage pr))
                         (filter prSuccess (pageResults (fst (pageStep env clock opts fetch st)))))"
proof (cases rule: pageStep_cases[of env clock opts fetch st])
  case (failure base err)
  with assms show ?thesis by (simp add: pageFailure_fields)
next
  case (stopped st1)
  with assms show ?thesis by simp
next
  case (accepted result st2 continue)
  with assms show ?thesis by (simp add: pageItemsAt_def)
qed

lemma pageStep_pages:
  assumes "\<forall>pr \<in> set (pageResults st). prPage pr \<in> set (requested st)"
  shows "\<forall>pr \<in> set (pageResults (fst (pageStep env clock opts fetch st))).
           prPage pr \<in> set (requested (fst (pageStep env clock opts fetch st)))"
proof (cases rule: pageStep_cases[of env clock opts fetch st])
  case (failure base err)
  with assms show ?thesis by (auto simp: pageFailure_fields)
next
  case (stopped st1)
  with assms show ?thesis by auto
next
  case (accepted result st2 continue)
  with assms show ?thesis by auto
qed

lemma pageLoop_bound:
  "stopOnEmpty opts \<Longrightarrow> zeroItems (fetch N) \<Longrightarrow> zeroItems (fetch (N + 1)) \<Longrightarrow>
   currentPage st \<le> N + 1 \<Longrightarrow>
   (currentPage st = N + 1 \<longrightarrow> consecutiveEmpty st \<ge> 1) \<Longrightarrow>
   (\<forall>p \<in> set (requested st). p \<le> N + 1) \<Longrightarrow>
   \<forall>p \<in> set (requested (pageLoop env clock opts fetch st)). p \<le> N + 1"
proof (induction env clock opts fetch st rule: pageLoop.induct)
  case (1 env clock opts fetch st)
  note stop = "1.prems"(1) and zN = "1.prems"(2) and zN1 = "1.prems"(3)
  show ?case
  proof (cases "currentPage st \<le> startPage opts + maxPages opts - 1")
    case False
    with "1.prems" show ?thesis by (simp add: pageLoop_done)
  next
    case True
    let ?st' = "fst (pageStep env clock opts fetch st)"
    have req: "\<forall>p \<in> set (requested ?st'). p \<le> N + 1"
      using "1.prems" by (simp add: pageStep_requested)
    show ?thesis
    proof (cases "snd (pageStep env clock opts fetch st)")
      case False
      with True req show ?thesis by (simp add: pageLoop_step)
    next
      case cont: True
      have cur: "currentPage ?st' = currentPage st + 1" using cont by (rule pageStep_currentPage)
      have notlast: "currentPage st \<noteq> N + 1"
      proof
        assume eq: "currentPage st = N + 1"
        with "1.prems" have "consecutiveEmpty st \<ge> 1" by simp
        from pageStep_zero_stop[OF _ stop this, of fetch env clock] eq zN1 cont
        show False by auto
      qed
      with "1.prems" have le: "currentPage ?st' \<le> N + 1" by (simp add: cur)
      have ce: "currentPage ?st' = N + 1 \<longrightarrow> consecutiveEmpty ?st' \<ge> 1"
      proof
        assume "currentPage ?st' = N + 1"
        with cur have "currentPage st = N" by simp
        with pageStep_zero_count[OF _ stop cont] zN
        show "consecutiveEmpty ?st' \<ge> 1" by simp
      qed
      have "\<forall>p \<in> set (requested (pageLoop env clock opts fetch ?st')). p \<le> N + 1"
        using "1.IH"[OF True _ cont stop zN zN1 le ce req]
        by (cases "pageStep env clock opts fetch st") auto
      with True cont show ?thesis by (simp add: pageLoop_step)
    qed
  qed
qed

lemma pageLoop_data:
  "allData st = concat (map (\<lambda>pr. pageItemsAt fetch (prPage pr)) (filter prSuccess (pageResults st)))
   \<Longrightarrow> (\<forall>pr \<in> set (pageResults st). prPage pr \<in> set (requested st))
   \<Longrightarrow> allData (pageLoop env clock opts fetch st)
         = concat (map (\<lambda>pr. pageItemsAt fetch (prPage pr))
                       (filter prSuccess (pageResults (pageLoop env clock opts fetch st))))
       \<and> (\<forall>pr \<in> set (pageResults (pageLoop env clock opts fetch st)).
             prPage pr \<in> set (requested (pageLoop env clock opts fetch st)))"
proof (induction env clock opts fetch st rule: pageLoop.induct)
  case (1 env clock opts fetch st)
  show ?case
  proof (cases "currentPage st \<le> startPage opts + maxPages opts - 1")
    case False
    with "1.prems" show ?thesis by (simp add: pageLoop_done)
  next
    case True
    let ?st' = "fst (pageStep env clock opts fetch st)"
    note d = pageStep_data[OF "1.prems"(1), of env clock opts]
    note p = pageStep_pages[OF "1.prems"(2), of env clock opts fetch]
    show ?thesis
    proof (cases "snd (pageStep env clock opts fetch st)")
      case False
      with True d p show ?thesis by (simp add: pageLoop_step)
    next
      case cont: True
      from "1.IH"[OF True _ cont d p] True cont show ?thesis
        by (cases "pageStep env clock opts fetch st") (auto simp: pageLoop_step)
    qed
  qed
qed

text \<open>
  C9 (amended). With \<open>stopOnEmpty\<close> enabled (the default), if page \<open>N\<close> and page
  \<open>N + 1\<close> both return zero items, then no page beyond \<open>N + 1\<close> is requested or logged,
  the collected data is made of the items of logged pages only, and the final data is the
  deduplication of that collection.
\<close>

theorem C9_stop_on_empty:
  assumes "stopOnEmpty opts" "startPage opts \<le> N"
    and "zeroItems (fetch N)" "zeroItems (fetch (N + 1))"
  shows "(\<forall>p \<in> set (requested (pageLoop env clock opts fetch (initialPageState opts))). p \<le> N + 1)
       \<and> (\<forall>pr \<in> set (pageResults (pageLoop env clock opts fetch (initialPageState opts))).
             prPage pr \<le> N + 1)
       \<and> allData (pageLoop env clock opts fetch (initialPageState opts))
           = concat (map (\<lambda>pr. pageItemsAt fetch (prPage pr))
               (filter prSuccess (pageResults (pageLoop env clock opts fetch (initialPageState opts)))))
       \<and> (\<forall>r. scrapePaginated env clock opts fetch = Inr r \<longrightarrow>
             pgPageResults r = pageResults (pageLoop env clock opts fetch (initialPageState opts)) \<and>
             (\<exists>d. deduplicate env clock
                    (Some (allData (pageLoop env clock opts fetch (initialPageState opts))))
                    (paginatedOptions (pOperation opts)) = Inr d
                  \<and> pgData r = items d))"
proof -
  let ?st = "pageLoop env clock opts fetch (initialPageState opts)"
  have b: "\<forall>p \<in> set (requested ?st). p \<le> N + 1"
    using assms(2) by (intro pageLoop_bound[OF assms(1,3,4)]) (simp_all add: initialPageState_def)
  have d: "allData ?st = concat (map (\<lambda>pr. pageItemsAt fetch (prPage pr))
                                    (filter prSuccess (pageResults ?st)))"
    and p: "\<forall>pr \<in> set (pageResults ?st). prPage pr \<in> set (requested ?st)"
    using pageLoop_data[of "initialPageState opts" fetch env clock opts]
    by (simp_all add: initialPageState_def)
  from b p have pb: "\<forall>pr \<in> set (pageResults ?st). prPage pr \<le> N + 1" by blast
  have r: "\<forall>r. scrapePaginated env clock opts fetch = Inr r \<longrightarrow>
             pgPageResults r = pageResults ?st \<and>
             (\<exists>d. deduplicate env clock (Some (allData ?st)) (paginatedOptions (pOperation opts))
                    = Inr d \<and> pgData r = items d)"
    by (auto simp: scrapePaginated_def Let_def split: sum.splits)
  from b pb d r show ?thesis by blast
qed

text \<open>
  C9 as stated fails: the two-empty-pages stop is guarded by \<open>stopOnEmpty\<close>. With the
  option off, pages 1 and 2 return nothing, page 3 is still fetched and its item is in the
  final data.
\<close>

definition thirdPageOnly :: "int \<Rightarrow> pageOutcome" where
  "thirdPageOnly p =
     (if p = 3 then PageReturned (Envelope (PArray
                      [JObj [(''title'', FStr ''Naruto''), (''href'', FStr ''/m/2'')]]))
      else PageReturned (Envelope (PArray [])))"

definition noStopOptions :: pageOptions where
  "noStopOptions = \<lparr> pOperation = ''latest'', pProviderId = ''komiku'', maxPages = 3,
     startPage = 1, stopOnEmpty = False, stopOnDuplicate = True, duplicateThreshold = 0.8 \<rparr>"

lemmas page_eval = pageLoop_step pageLoop_done pageStep_def pageFailure_def acceptPage_def
  duplicateStop_def pageDataOf_def resultData_def resultTruthy_def payloadTruthy_def
  initialPageState_def scrapePaginated_def paginatedOptions_def firstOptions_def

theorem C9_no_stop_without_option:
  "zeroItems (thirdPageOnly 1) \<and> zeroItems (thirdPageOnly 2)
   \<and> requested (pageLoop vercelEnv clock0 noStopOptions thirdPageOnly
                   (initialPageState noStopOptions)) = [1, 2, 3]
   \<and> scrapePaginated vercelEnv clock0 noStopOptions thirdPageOnly
       = Inr \<lparr> pgSuccess = True,
               pgData = [JObj [(''title'', FStr ''Naruto''), (''href'', FStr ''/m/2''),
                               (''_id'', FStr ''comic_2''), (''_hash'', FStr ''xb8hyh''),
                               (''_processedAt'', FNum 1000)]],
               pgPagination = None,
               pgPageResults =
                 [\<lparr> prPage = 1, prCount = 0, prSuccess = True, prError = None \<rparr>,
                  \<lparr> prPage = 2, prCount = 0, prSuccess = True, prError = None \<rparr>,
                  \<lparr> prPage = 3, prCount = 1, prSuccess = True, prError = None \<rparr>],
               pgTotalPages = 3, pgSuccessfulPages = 3, pgTotalItems = 1,
               pgUniqueItems = 1, pgDuplicatesRemoved = 0 \<rparr>"
  by (simp add: zeroItems_def page_eval thirdPageOnly_def noStopOptions_def
        vercelEnv_def clock0_def dedup_eval hash_eval str_eval)

text \<open>
  With the option on: page 1 has an item, pages 2 and 3 are empty, page 4 has an item
  again. The loop requests pages 1 to 3 and the collected data holds the item of page 1 only.
\<close>

definition gapPages :: "int \<Rightarrow> pageOutcome" where
  "gapPages p =
     (if p = 1 \<or> p = 4 then PageReturned (Envelope (PArray
                      [JObj [(''title'', FStr ''Naruto''), (''href'', FStr ''/m/2'')]]))
      else PageReturned (Envelope (PArray [])))"

definition stopOptions :: pageOptions where
  "stopOptions = \<lparr> pOperation = ''latest'', pProviderId = ''komiku'', maxPages = 10,
     startPage = 1, stopOnEmpty = True, stopOnDuplicate = True, duplicateThreshold = 0.8 \<rparr>"

theorem C9_stop_on_empty_witness:
  "list_all (\<lambda>p. p \<le> 3)
     (requested (pageLoop vercelEnv clock0 stopOptions gapPages (initialPageState stopOptions)))
   \<and> requested (pageLoop vercelEnv clock0 stopOptions gapPages (initialPageState stopOptions))
       = [1, 2, 3]
   \<and> allData (pageLoop vercelEnv clock0 stopOptions gapPages (initialPageState stopOptions))
       = [JObj [(''title'', FStr ''Naruto''), (''href'', FStr ''/m/2'')]]"
proof -
  have s: "stopOnEmpty stopOptions" and b: "startPage stopOptions \<le> 2"
    by (simp_all add: stopOptions_def)
  have z2: "zeroItems (gapPages 2)" and z3: "zeroItems (gapPages (2 + 1))"
    by (simp_all add: zeroItems_def gapPages_def pageDataOf_def resultData_def resultTruthy_def
          payloadTruthy_def)
  from C9_stop_on_empty[OF s b z2 z3, of vercelEnv clock0]
  have "\<forall>p \<in> set (requested (pageLoop vercelEnv clock0 stopOptions gapPages
                         (initialPageState stopOptions))). p \<le> 3"
    by simp
  then have "list_all (\<lambda>p. p \<le> 3)
     (requested (pageLoop vercelEnv clock0 stopOptions gapPages (initialPageState stopOptions)))"
    by (simp add: list_all_iff)
  moreover have "pageLoop vercelEnv clock0 stopOptions gapPages (initialPageState stopOptions)
      = \<lparr> allData = [JObj [(''title'', FStr ''Naruto''), (''href'', FStr ''/m/2'')]],
           pageResults = [\<lparr> prPage = 1, prCount = 1, prSuccess = True, prError = None \<rparr>,
                          \<lparr> prPage = 2, prCount = 0, prSuccess = True, prError = None \<rparr>],
           currentPage = 3, consecutiveEmpty = 2, lastPagination = None,
           requested = [1, 2, 3] \<rparr>"
    by (simp add: page_eval gapPages_def stopOptions_def Let_def)
  ultimately show ?thesis by simp
qed

end
